theory Spec2Isabelle
  imports Main
begin

section \<open>Python string primitives used by the script\<close>

text \<open>
  A Python \<open>str\<close> is modelled as a \<open>string\<close> (a list of 8-bit characters).  Only the
  characters \<open>/\<close>, \<open>.\<close>, \<open>g\<close>, \<open>i\<close>, \<open>t\<close>, \<open>h\<close>, \<open>p\<close> and white space are ever inspected by
  the script.
\<close>

definition rstrip_chars :: "char list \<Rightarrow> string \<Rightarrow> string" where
  \<comment> \<open>\<open>s.rstrip(chars)\<close>: drop every trailing character that occurs in \<open>chars\<close>\<close>
  "rstrip_chars cs s = rev (dropWhile (\<lambda>c. c \<in> set cs) (rev s))"

fun split_char :: "char \<Rightarrow> string \<Rightarrow> string list" where
  \<comment> \<open>\<open>s.split(sep)\<close> for a one-character separator; the result is never empty\<close>
  "split_char sep [] = [[]]"
| "split_char sep (c # cs) =
     (if c = sep then [] # split_char sep cs
      else (case split_char sep cs of [] \<Rightarrow> [[c]] | w # ws \<Rightarrow> (c # w) # ws))"

definition endswith :: "string \<Rightarrow> string \<Rightarrow> bool" where
  \<comment> \<open>\<open>s.endswith(suffix)\<close>\<close>
  "endswith s suffix =
     (length suffix \<le> length s \<and> drop (length s - length suffix) s = suffix)"

definition startswith :: "string \<Rightarrow> string \<Rightarrow> bool" where
  \<comment> \<open>\<open>s.startswith(prefix)\<close>\<close>
  "startswith s prefix = (take (length prefix) s = prefix)"

definition drop_last :: "nat \<Rightarrow> string \<Rightarrow> string" where
  \<comment> \<open>the slice \<open>s[:-n]\<close> for \<open>n > 0\<close>\<close>
  "drop_last n s = take (length s - n) s"

definition py_isspace :: "char \<Rightarrow> bool" where
  \<comment> \<open>the characters below code 256 that \<open>str.strip()\<close> removes\<close>
  "py_isspace c =
     (let n = (of_char c :: nat)
      in (9 \<le> n \<and> n \<le> 13) \<or> (28 \<le> n \<and> n \<le> 32) \<or> n = 133 \<or> n = 160)"

definition strip :: "string \<Rightarrow> string" where
  \<comment> \<open>\<open>s.strip()\<close>\<close>
  "strip s = rev (dropWhile py_isspace (rev (dropWhile py_isspace s)))"

section \<open>\<open>parse_repo_name\<close> (source lines 134-138)\<close>

definition parse_repo_name :: "string \<Rightarrow> string" where
  "parse_repo_name repo_url =
     (let name = last (split_char CHR ''/'' (rstrip_chars ''/'' repo_url))
      in if endswith name ''.git'' then drop_last 4 name else name)"

definition final_segment_of :: "string \<Rightarrow> string \<Rightarrow> string \<Rightarrow> nat \<Rightarrow> bool" where
  \<comment> \<open>The wording of the specification: \<open>url\<close> is \<open>pre\<close>, then its final path segment
      \<open>seg\<close>, then \<open>k\<close> trailing slashes.\<close>
  "final_segment_of url pre seg k =
     (url = pre @ seg @ replicate k CHR ''/'' \<and> CHR ''/'' \<notin> set seg \<and>
      (pre = [] \<or> last pre = CHR ''/'') \<and> (seg = [] \<longrightarrow> pre = []))"

section \<open>The environment of the script\<close>

text \<open>
  Everything the script does to the outside world is recorded as an event, in order.
  The history of events so far is the state that is passed along.  The answer of every
  external call (the file system, the network, child processes, the console) is a
  function of that history, given by the environment \<open>env\<close>, so that the same call may
  be answered differently at different times.  Messages are identified by the source
  line that prints them, with the values they interpolate.
\<close>

datatype msg =
    MsgDownloadAttempt nat      \<comment> \<open>line 54\<close>
  | MsgDownloaded               \<comment> \<open>line 56\<close>
  | MsgInstallingGit            \<comment> \<open>line 57\<close>
  | MsgGitInstallFailed int     \<comment> \<open>lines 60-65, with the installer's exit status\<close>
  | MsgGitInstalled             \<comment> \<open>line 70\<close>
  | MsgGitInstallException      \<comment> \<open>lines 75-79\<close>
  | MsgGitPresent               \<comment> \<open>line 86\<close>
  | MsgPythonPresent            \<comment> \<open>line 93\<close>
  | MsgPythonMissing            \<comment> \<open>line 96\<close>
  | MsgNpmPresent               \<comment> \<open>line 102\<close>
  | MsgNpmMissing               \<comment> \<open>line 105\<close>
  | MsgRunning "string list"    \<comment> \<open>line 110\<close>
  | MsgOutputLine string        \<comment> \<open>line 115\<close>
  | MsgExitCode int             \<comment> \<open>line 118\<close>
  | MsgRetry nat                \<comment> \<open>line 123\<close>
  | MsgCmdException             \<comment> \<open>line 128\<close>
  | MsgAmbiguous                \<comment> \<open>line 150\<close>
  | MsgCandidate nat string     \<comment> \<open>line 152\<close>
  | MsgInvalidChoice            \<comment> \<open>line 160\<close>
  | MsgProgress nat             \<comment> \<open>line 169, with the value of \<open>step_idx\<close>\<close>
  | MsgCreatingWorkdir          \<comment> \<open>line 174\<close>
  | MsgCheckingGit              \<comment> \<open>line 180\<close>
  | MsgGitFailed                \<comment> \<open>line 182\<close>
  | MsgRemovingOld string       \<comment> \<open>line 191\<close>
  | MsgCannotRemove             \<comment> \<open>line 195\<close>
  | MsgCloning                  \<comment> \<open>line 198\<close>
  | MsgCloneFailed              \<comment> \<open>line 201\<close>
  | MsgCloned string            \<comment> \<open>line 203\<close>
  | MsgDetectedPython           \<comment> \<open>line 211\<close>
  | MsgPipInstall               \<comment> \<open>line 214\<close>
  | MsgPipFailed                \<comment> \<open>line 217\<close>
  | MsgDetectedNode             \<comment> \<open>line 220\<close>
  | MsgNpmInstall               \<comment> \<open>line 223\<close>
  | MsgNpmFailed                \<comment> \<open>line 226\<close>
  | MsgNoTechnology             \<comment> \<open>line 229\<close>
  | MsgLaunching string         \<comment> \<open>line 239\<close>
  | MsgNoEntry                  \<comment> \<open>line 242\<close>
  | MsgNpmStart                 \<comment> \<open>line 245\<close>
  | MsgDone                     \<comment> \<open>line 249, the final message\<close>
  | MsgCritical                 \<comment> \<open>line 253\<close>
  | MsgBanner                   \<comment> \<open>line 256\<close>
  | MsgBadUrl                   \<comment> \<open>line 262\<close>

datatype proc_result =
    Raised "string list"
      \<comment> \<open>an exception while the child process was created or its output read, after these
          output lines; no lines when the process could not be launched\<close>
  | Exited "string list" int
      \<comment> \<open>the process ran: its output lines and \<open>proc.returncode\<close>\<close>

datatype event =
    Log msg                   \<comment> \<open>\<open>log\<close>: printed and appended to the log file\<close>
  | LogError msg              \<comment> \<open>\<open>log_error\<close>\<close>
  | Print msg                 \<comment> \<open>\<open>print\<close> alone\<close>
  | Spawn "string list" "string option" bool proc_result
      \<comment> \<open>a child process is created (\<open>subprocess.Popen\<close>, \<open>subprocess.run\<close>):
          command, working directory, \<open>shell\<close>, and what came of it\<close>
  | UrlRetrieve string bool   \<comment> \<open>\<open>urllib.request.urlretrieve\<close>; \<open>False\<close> when it raised\<close>
  | Remove string bool        \<comment> \<open>\<open>os.remove\<close>; \<open>False\<close> when it raised\<close>
  | MakeDirs string bool      \<comment> \<open>\<open>os.makedirs\<close>; \<open>False\<close> when it raised\<close>
  | RmTree string bool        \<comment> \<open>\<open>shutil.rmtree\<close>; \<open>False\<close> when it raised\<close>
  | Input "int option"        \<comment> \<open>\<open>int(input(...))\<close>; \<open>None\<close> when it raised\<close>
  | InputLine "string option" \<comment> \<open>\<open>input(...)\<close>; \<open>None\<close> when it raised\<close>
  | Uncaught                  \<comment> \<open>an exception left the script\<close>

record env =
  shutil_which :: "event list \<Rightarrow> string \<Rightarrow> bool"
  urlretrieve :: "event list \<Rightarrow> string \<Rightarrow> bool"
  subprocess :: "event list \<Rightarrow> string list \<Rightarrow> string option \<Rightarrow> bool \<Rightarrow> proc_result"
  os_remove :: "event list \<Rightarrow> string \<Rightarrow> bool"
  os_makedirs :: "event list \<Rightarrow> string \<Rightarrow> bool"
  os_path_exists :: "event list \<Rightarrow> string \<Rightarrow> bool"
  shutil_rmtree :: "event list \<Rightarrow> string \<Rightarrow> bool"
  os_path_isfile :: "event list \<Rightarrow> string \<Rightarrow> bool"
  glob_py :: "event list \<Rightarrow> string \<Rightarrow> string list"
    \<comment> \<open>the base names of \<open>glob.glob(os.path.join(dir, "*.py"))\<close>\<close>
  input_int :: "event list \<Rightarrow> int option"
  input_str :: "event list \<Rightarrow> string option"
  os_path_join :: "string \<Rightarrow> string \<Rightarrow> string"
  gettempdir :: string
  sys_executable :: string

definition WORKDIR :: string where
  "WORKDIR = ''C:'' @ [CHR 0x5C] @ ''Hem4V''"

definition MAX_ATTEMPTS :: nat where
  "MAX_ATTEMPTS = 2"

definition log :: "msg \<Rightarrow> event list \<Rightarrow> event list" where
  "log m h = h @ [Log m]"

definition log_error :: "msg \<Rightarrow> event list \<Rightarrow> event list" where
  "log_error m h = h @ [LogError m]"

definition check_exe :: "env \<Rightarrow> string \<Rightarrow> event list \<Rightarrow> bool" where
  "check_exe e cmd h = shutil_which e h cmd"

section \<open>\<open>install_git\<close>, \<open>ensure_git\<close>, \<open>ensure_python\<close>, \<open>ensure_npm\<close> (lines 49-107)\<close>

definition temp_path :: "env \<Rightarrow> string" where
  "temp_path e = os_path_join e (gettempdir e) ''Git-64-bit.exe''"

definition installer_cmd :: "env \<Rightarrow> string list" where
  "installer_cmd e = [temp_path e, ''/VERYSILENT'', ''/NORESTART'']"

text \<open>
  The loop of \<open>install_git\<close> over the attempt numbers that remain.  \<open>on_exc\<close> is the
  \<open>except\<close> branch (lines 73-81): it is reached from the download, from the launch of
  the installer and from the removal of the temporary file, all of which are inside the
  \<open>try\<close>.
\<close>

fun install_git_loop :: "env \<Rightarrow> nat list \<Rightarrow> event list \<Rightarrow> bool \<times> event list" where
  "install_git_loop e [] h = (False, h)"
| "install_git_loop e (attempt # rest) h =
     (let on_exc = (\<lambda>h'. let h'' = log_error MsgGitInstallException h'
                          in if attempt = MAX_ATTEMPTS then (False, h'')
                             else install_git_loop e rest h'');
          h1 = log (MsgDownloadAttempt attempt) h;
          dl = urlretrieve e h1 (temp_path e);
          h2 = h1 @ [UrlRetrieve (temp_path e) dl]
      in if \<not> dl then on_exc h2
         else
           let h3 = log MsgInstallingGit (log MsgDownloaded h2);
               r = subprocess e h3 (installer_cmd e) None False;
               h4 = h3 @ [Spawn (installer_cmd e) None False r]
           in case r of
                Raised out \<Rightarrow> on_exc h4
              | Exited out rc \<Rightarrow>
                  if rc \<noteq> 0 then
                    let h5 = log_error (MsgGitInstallFailed rc) h4
                    in if attempt = MAX_ATTEMPTS then (False, h5)
                       else install_git_loop e rest h5
                  else
                    let h5 = log MsgGitInstalled h4;
                        rm = os_remove e h5 (temp_path e);
                        h6 = h5 @ [Remove (temp_path e) rm]
                    in if rm then (True, h6) else on_exc h6)"

definition install_git :: "env \<Rightarrow> event list \<Rightarrow> bool \<times> event list" where
  "install_git e h = install_git_loop e [1 ..< MAX_ATTEMPTS + 1] h"

definition ensure_git :: "env \<Rightarrow> event list \<Rightarrow> bool \<times> event list" where
  "ensure_git e h =
     (if check_exe e ''git'' h then (True, log MsgGitPresent h) else install_git e h)"

definition ensure_python :: "env \<Rightarrow> event list \<Rightarrow> bool \<times> event list" where
  "ensure_python e h =
     (if check_exe e ''python'' h then (True, log MsgPythonPresent h)
      else (False, log_error MsgPythonMissing h))"

definition ensure_npm :: "env \<Rightarrow> event list \<Rightarrow> bool \<times> event list" where
  "ensure_npm e h =
     (if check_exe e ''npm'' h then (True, log MsgNpmPresent h)
      else (False, log_error MsgNpmMissing h))"

section \<open>\<open>run_cmd\<close> (lines 109-132)\<close>

definition log_lines :: "string list \<Rightarrow> event list \<Rightarrow> event list" where
  \<comment> \<open>lines 114-115: every output line is logged, stripped on the right\<close>
  "log_lines out h = h @ map (\<lambda>l. Log (MsgOutputLine l)) out"

fun run_cmd_loop ::
  "env \<Rightarrow> string list \<Rightarrow> string option \<Rightarrow> bool \<Rightarrow> nat list \<Rightarrow> event list \<Rightarrow> int \<times> event list"
where
  "run_cmd_loop e cmd cwd shell [] h = (- 1, h)"
| "run_cmd_loop e cmd cwd shell (attempt # rest) h =
     (let r = subprocess e h cmd cwd shell;
          h1 = h @ [Spawn cmd cwd shell r]
      in case r of
           Exited out rc \<Rightarrow>
             let h2 = log_lines out h1
             in if rc \<noteq> 0 then
                  let h3 = log_error (MsgExitCode rc) h2
                  in if attempt = MAX_ATTEMPTS then (rc, h3)
                     else run_cmd_loop e cmd cwd shell rest (log (MsgRetry (attempt + 1)) h3)
                else (0, h2)
         | Raised out \<Rightarrow>
             let h2 = log_error MsgCmdException (log_lines out h1)
             in if attempt = MAX_ATTEMPTS then (- 1, h2)
                else run_cmd_loop e cmd cwd shell rest h2)"

definition run_cmd ::
  "env \<Rightarrow> string list \<Rightarrow> string option \<Rightarrow> bool \<Rightarrow> event list \<Rightarrow> int \<times> event list"
where
  "run_cmd e cmd cwd shell h =
     run_cmd_loop e cmd cwd shell [1 ..< MAX_ATTEMPTS + 1] (log (MsgRunning cmd) h)"

section \<open>\<open>find_python_entrypoint\<close> (lines 140-162)\<close>

fun first_candidate :: "env \<Rightarrow> event list \<Rightarrow> string \<Rightarrow> string list \<Rightarrow> string option" where
  \<comment> \<open>lines 142-145: the loop over the candidate names\<close>
  "first_candidate e h target_dir [] = None"
| "first_candidate e h target_dir (fname # rest) =
     (if os_path_isfile e h (os_path_join e target_dir fname) then Some fname
      else first_candidate e h target_dir rest)"

definition valid_choice :: "string list \<Rightarrow> int option \<Rightarrow> bool" where
  \<comment> \<open>lines 155-156: the reply parsed as an integer and within \<open>1 .. len(pyfiles)\<close>\<close>
  "valid_choice pyfiles r =
     (case r of None \<Rightarrow> False | Some choice \<Rightarrow> 1 \<le> choice \<and> choice \<le> int (length pyfiles))"

text \<open>
  The \<open>while True\<close> loop of lines 153-160.  It has no exit other than a valid reply, so
  it is a partial function: \<open>None\<close> means that it never returns.
\<close>

partial_function (option) choose_file ::
  "env \<Rightarrow> string list \<Rightarrow> event list \<Rightarrow> (string \<times> event list) option"
where
  "choose_file e pyfiles h =
     (if valid_choice pyfiles (input_int e h)
      then Some (pyfiles ! nat (the (input_int e h) - 1), h @ [Input (input_int e h)])
      else choose_file e pyfiles (h @ [Input (input_int e h), Print MsgInvalidChoice]))"

definition list_candidates :: "string list \<Rightarrow> event list \<Rightarrow> event list" where
  \<comment> \<open>lines 150-152\<close>
  "list_candidates pyfiles h =
     h @ Print MsgAmbiguous #
         map (\<lambda>(idx, f). Print (MsgCandidate (idx + 1) f)) (enumerate 0 pyfiles)"

definition find_python_entrypoint ::
  "env \<Rightarrow> string \<Rightarrow> event list \<Rightarrow> (string option \<times> event list) option"
where
  "find_python_entrypoint e target_dir h =
     (case first_candidate e h target_dir [''main.py'', ''app.py'', ''index.py''] of
        Some fname \<Rightarrow> Some (Some fname, h)
      | None \<Rightarrow>
          (let pyfiles = glob_py e h target_dir
           in if length pyfiles = 1 then Some (Some (pyfiles ! 0), h)
              else if length pyfiles > 1 then
                (case choose_file e pyfiles (list_candidates pyfiles h) of
                   None \<Rightarrow> None
                 | Some (f, h') \<Rightarrow> Some (Some f, h'))
              else Some (None, h)))"

section \<open>\<open>do_workflow\<close> (lines 164-253)\<close>

definition progress :: "nat \<Rightarrow> event list \<Rightarrow> event list" where
  \<comment> \<open>lines 167-169: prints the percentage and the label of step \<open>step_idx\<close>\<close>
  "progress step_idx h = h @ [Print (MsgProgress step_idx)]"

definition clone_step :: "env \<Rightarrow> string \<Rightarrow> event list \<Rightarrow> string option \<times> event list" where
  \<comment> \<open>lines 188-203; \<open>None\<close> when the block returns from \<open>do_workflow\<close>, the target
      directory otherwise\<close>
  "clone_step e repo_url h =
     (let repo_name = parse_repo_name repo_url;
          target_dir = os_path_join e WORKDIR repo_name;
          (removed, h1) =
            (if os_path_exists e h target_dir then
               (let h' = log (MsgRemovingOld target_dir) h;
                    ok = shutil_rmtree e h' target_dir;
                    h'' = h' @ [RmTree target_dir ok]
                in if ok then (True, h'') else (False, log_error MsgCannotRemove h''))
             else (True, h))
      in if \<not> removed then (None, h1)
         else
           let (exit_code, h2) =
                 run_cmd e [''git'', ''clone'', repo_url] (Some WORKDIR) False (log MsgCloning h1)
           in if exit_code \<noteq> 0 then (None, log_error MsgCloneFailed h2)
              else (Some target_dir, log (MsgCloned target_dir) h2))"

definition install_step :: "env \<Rightarrow> string \<Rightarrow> event list \<Rightarrow> bool \<times> event list" where
  \<comment> \<open>lines 208-231; \<open>False\<close> when the block returns from \<open>do_workflow\<close>\<close>
  "install_step e target_dir h =
     (let req_path = os_path_join e target_dir ''requirements.txt'';
          pkg_path = os_path_join e target_dir ''package.json''
      in if os_path_isfile e h req_path then
           (let (ok, h1) = ensure_python e (log MsgDetectedPython h)
            in if \<not> ok then (False, h1)
               else
                 let (exit_code, h2) =
                       run_cmd e [sys_executable e, ''-m'', ''pip'', ''install'', ''-r'',
                                  ''requirements.txt'']
                         (Some target_dir) False (log MsgPipInstall h1)
                 in if exit_code \<noteq> 0 then (False, log_error MsgPipFailed h2)
                    else (True, h2))
         else if os_path_isfile e h pkg_path then
           (let (ok, h1) = ensure_npm e (log MsgDetectedNode h)
            in if \<not> ok then (False, h1)
               else
                 let (exit_code, h2) =
                       run_cmd e [''npm'', ''install''] (Some target_dir) False
                         (log MsgNpmInstall h1)
                 in if exit_code \<noteq> 0 then (False, log_error MsgNpmFailed h2)
                    else (True, h2))
         else (False, log_error MsgNoTechnology h))"

definition run_step :: "env \<Rightarrow> string \<Rightarrow> event list \<Rightarrow> event list option" where
  \<comment> \<open>lines 236-246; the result of \<open>run_cmd\<close> is discarded, and \<open>if entry_py\<close> is false
      for \<open>None\<close> and for the empty string\<close>
  "run_step e target_dir h =
     (let req_path = os_path_join e target_dir ''requirements.txt'';
          pkg_path = os_path_join e target_dir ''package.json''
      in if os_path_isfile e h req_path then
           (case find_python_entrypoint e target_dir h of
              None \<Rightarrow> None
            | Some (entry_py, h1) \<Rightarrow>
                if entry_py \<noteq> None \<and> entry_py \<noteq> Some [] then
                  Some (snd (run_cmd e [sys_executable e, the entry_py] (Some target_dir) False
                               (log (MsgLaunching (the entry_py)) h1)))
                else Some (log_error MsgNoEntry h1))
         else if os_path_isfile e h pkg_path then
           Some (snd (run_cmd e [''npm'', ''start''] (Some target_dir) True (log MsgNpmStart h)))
         else Some h)"

text \<open>
  \<open>do_workflow\<close> returns nothing; the model returns the value of the local variable
  \<open>step_idx\<close> when the function is left, and the history.  \<open>None\<close> means that the
  function never returns.  The only call that can raise into the handler of line 251
  is \<open>os.makedirs\<close>: every other call that can raise is inside a \<open>try\<close> of its own.
\<close>

definition do_workflow :: "env \<Rightarrow> string \<Rightarrow> event list \<Rightarrow> (nat \<times> event list) option" where
  "do_workflow e repo_url h =
     (let h1 = log MsgCreatingWorkdir (progress 0 h);
          mk = os_makedirs e h1 WORKDIR;
          h2 = h1 @ [MakeDirs WORKDIR mk]
      in if \<not> mk then Some (0, log_error MsgCritical h2)
         else
           let (git_ok, h3) = ensure_git e (log MsgCheckingGit (progress 1 h2))
           in if \<not> git_ok then Some (1, log_error MsgGitFailed h3)
              else
                let (cloned, h4) = clone_step e repo_url (progress 2 h3)
                in case cloned of
                     None \<Rightarrow> Some (2, h4)
                   | Some target_dir \<Rightarrow>
                       let (installed, h5) = install_step e target_dir (progress 3 h4)
                       in if \<not> installed then Some (3, h5)
                          else
                            (case run_step e target_dir (progress 4 h5) of
                               None \<Rightarrow> None
                             | Some h6 \<Rightarrow> Some (5, log MsgDone (progress 5 h6))))"

section \<open>\<open>main\<close> (lines 255-264)\<close>

definition main :: "env \<Rightarrow> string list \<Rightarrow> event list option" where
  \<comment> \<open>\<open>argv\<close> is \<open>sys.argv\<close>; the result is the history when the script ends\<close>
  "main e argv =
     (let h0 = [Print MsgBanner];
          (given, h1) =
            (if length argv > 1 then (Some (strip (argv ! 1)), h0)
             else (map_option strip (input_str e h0), h0 @ [InputLine (input_str e h0)]))
      in case given of
           None \<Rightarrow> Some (h1 @ [Uncaught])
         | Some repo_url \<Rightarrow>
             if repo_url = [] \<or> \<not> startswith repo_url ''http''
             then Some (log_error MsgBadUrl h1)
             else map_option snd (do_workflow e repo_url h1))"

section \<open>Observations on a history\<close>

definition events_since :: "event list \<Rightarrow> event list \<Rightarrow> event list" where
  \<comment> \<open>the events of \<open>t\<close> after its first \<open>length h\<close> ones\<close>
  "events_since h t = drop (length h) t"

fun launches :: "event list \<Rightarrow> proc_result list" where
  \<comment> \<open>what came of each child process, in order\<close>
  "launches [] = []"
| "launches (Spawn cmd cwd shell r # t) = r # launches t"
| "launches (ev # t) = launches t"

fun launched_cmds :: "event list \<Rightarrow> string list list" where
  "launched_cmds [] = []"
| "launched_cmds (Spawn cmd cwd shell r # t) = cmd # launched_cmds t"
| "launched_cmds (ev # t) = launched_cmds t"

fun downloads :: "event list \<Rightarrow> bool list" where
  "downloads [] = []"
| "downloads (UrlRetrieve p ok # t) = ok # downloads t"
| "downloads (ev # t) = downloads t"

fun removals :: "event list \<Rightarrow> bool list" where
  "removals [] = []"
| "removals (Remove p ok # t) = ok # removals t"
| "removals (ev # t) = removals t"

fun progress_shown :: "event list \<Rightarrow> nat list" where
  \<comment> \<open>the values of \<open>step_idx\<close> that \<open>progress\<close> printed, in order\<close>
  "progress_shown [] = []"
| "progress_shown (Print (MsgProgress k) # t) = k # progress_shown t"
| "progress_shown (ev # t) = progress_shown t"

fun exit_zero :: "proc_result \<Rightarrow> bool" where
  "exit_zero (Exited out rc) = (rc = 0)"
| "exit_zero (Raised out) = False"

fun exit_nonzero :: "proc_result \<Rightarrow> bool" where
  "exit_nonzero (Exited out rc) = (rc \<noteq> 0)"
| "exit_nonzero (Raised out) = False"

fun raised :: "proc_result \<Rightarrow> bool" where
  "raised (Raised out) = True"
| "raised (Exited out rc) = False"

fun status :: "proc_result \<Rightarrow> int option" where
  "status (Exited out rc) = Some rc"
| "status (Raised out) = None"

definition attempt_events ::
  "string list \<Rightarrow> string option \<Rightarrow> bool \<Rightarrow> proc_result \<Rightarrow> event list" where
  \<comment> \<open>what one iteration of the loop of \<open>run_cmd\<close> appends to the history, the message
      of line 123 apart\<close>
  "attempt_events cmd cwd shell r =
     Spawn cmd cwd shell r #
       (case r of
          Exited out rc \<Rightarrow>
            map (\<lambda>l. Log (MsgOutputLine l)) out @
            (if rc \<noteq> 0 then [LogError (MsgExitCode rc)] else [])
        | Raised out \<Rightarrow> map (\<lambda>l. Log (MsgOutputLine l)) out @ [LogError MsgCmdException])"

section \<open>Environments for concrete runs\<close>

definition test_env ::
  "(event list \<Rightarrow> string list \<Rightarrow> proc_result) \<Rightarrow> (string \<Rightarrow> bool) \<Rightarrow> (string \<Rightarrow> bool) \<Rightarrow>
   string list \<Rightarrow> (event list \<Rightarrow> int option) \<Rightarrow> env" where
  \<comment> \<open>child processes end as \<open>procs\<close> says, the executables \<open>present\<close> are on the path, the
      files \<open>files\<close> exist, \<open>pyfiles\<close> are the top-level Python files, the user answers
      \<open>replies\<close>; downloads and file system changes succeed\<close>
  "test_env procs present files pyfiles replies =
     \<lparr> shutil_which = (\<lambda>h c. present c),
       urlretrieve = (\<lambda>h p. True),
       subprocess = (\<lambda>h cmd cwd shell. procs h cmd),
       os_remove = (\<lambda>h p. True),
       os_makedirs = (\<lambda>h p. True),
       os_path_exists = (\<lambda>h p. False),
       shutil_rmtree = (\<lambda>h p. True),
       os_path_isfile = (\<lambda>h p. files p),
       glob_py = (\<lambda>h d. pyfiles),
       input_int = replies,
       input_str = (\<lambda>h. None),
       os_path_join = (\<lambda>a b. a @ ''/'' @ b),
       gettempdir = ''tmp'',
       sys_executable = ''python'' \<rparr>"

definition failing_env :: env where
  \<comment> \<open>every child process runs and exits with status 3\<close>
  "failing_env = test_env (\<lambda>h cmd. Exited [] 3) (\<lambda>c. True) (\<lambda>p. False) [] (\<lambda>h. None)"

definition unlaunchable_env :: env where
  \<comment> \<open>no child process can be launched\<close>
  "unlaunchable_env = test_env (\<lambda>h cmd. Raised []) (\<lambda>c. True) (\<lambda>p. False) [] (\<lambda>h. None)"

definition hangup_env :: env where
  \<comment> \<open>every child process runs and \<open>proc.returncode\<close> is \<open>- 1\<close>: on POSIX, a child ended
      by signal 1\<close>
  "hangup_env = test_env (\<lambda>h cmd. Exited [] (- 1)) (\<lambda>c. True) (\<lambda>p. False) [] (\<lambda>h. None)"

definition unreadable_env :: env where
  \<comment> \<open>every child process is launched and writes a line; reading the rest of its output
      raises (\<open>UnicodeDecodeError\<close> in the loop of line 114)\<close>
  "unreadable_env =
     test_env (\<lambda>h cmd. Raised [''started'']) (\<lambda>c. True) (\<lambda>p. False) [] (\<lambda>h. None)"

section \<open>Auxiliary definitions for \<open>install_git\<close>\<close>

definition install_attempt :: "env \<Rightarrow> nat \<Rightarrow> event list \<Rightarrow> bool \<times> event list" where
  \<comment> \<open>one iteration of the loop of \<open>install_git\<close> (lines 53-81): whether it returned
      \<open>True\<close>, and the events it appends to the history \<open>h\<close>\<close>
  "install_attempt e attempt h =
     (let h1 = h @ [Log (MsgDownloadAttempt attempt)];
          dl = urlretrieve e h1 (temp_path e);
          ev2 = [Log (MsgDownloadAttempt attempt), UrlRetrieve (temp_path e) dl]
      in if \<not> dl then (False, ev2 @ [LogError MsgGitInstallException])
         else
           let ev3 = ev2 @ [Log MsgDownloaded, Log MsgInstallingGit];
               r = subprocess e (h @ ev3) (installer_cmd e) None False;
               ev4 = ev3 @ [Spawn (installer_cmd e) None False r]
           in case r of
                Raised out \<Rightarrow> (False, ev4 @ [LogError MsgGitInstallException])
              | Exited out rc \<Rightarrow>
                  if rc \<noteq> 0 then (False, ev4 @ [LogError (MsgGitInstallFailed rc)])
                  else
                    let ev5 = ev4 @ [Log MsgGitInstalled];
                        rm = os_remove e (h @ ev5) (temp_path e);
                        ev6 = ev5 @ [Remove (temp_path e) rm]
                    in if rm then (True, ev6)
                       else (False, ev6 @ [LogError MsgGitInstallException]))"

fun attempt_starts :: "event list \<Rightarrow> nat list" where
  \<comment> \<open>the attempt numbers announced by line 54, in order\<close>
  "attempt_starts [] = []"
| "attempt_starts (Log (MsgDownloadAttempt n) # t) = n # attempt_starts t"
| "attempt_starts (ev # t) = attempt_starts t"


text \<open>
  The wording of the specification for a tool with a remediation (section 4.2): the
  download is retried on its own, then the installer is run through \<open>run_cmd\<close>, then the
  temporary file is removed.
\<close>

fun spec_download :: "env \<Rightarrow> nat list \<Rightarrow> event list \<Rightarrow> bool \<times> event list" where
  "spec_download e [] h = (False, h)"
| "spec_download e (attempt # rest) h =
     (let h1 = log (MsgDownloadAttempt attempt) h;
          dl = urlretrieve e h1 (temp_path e);
          h2 = h1 @ [UrlRetrieve (temp_path e) dl]
      in if dl then (True, log MsgDownloaded h2)
         else spec_download e rest (log_error MsgGitInstallException h2))"

definition spec_ensure_git :: "env \<Rightarrow> event list \<Rightarrow> bool \<times> event list" where
  "spec_ensure_git e h =
     (if check_exe e ''git'' h then (True, log MsgGitPresent h)
      else
        let (dl, h1) = spec_download e [1 ..< MAX_ATTEMPTS + 1] h
        in if \<not> dl then (False, h1)
           else
             let (rc, h2) = run_cmd e (installer_cmd e) None False (log MsgInstallingGit h1)
             in if rc \<noteq> 0 then (False, h2)
                else
                  let h3 = log MsgGitInstalled h2;
                      rm = os_remove e h3 (temp_path e);
                      h4 = h3 @ [Remove (temp_path e) rm]
                  in if rm then (True, h4) else (False, log_error MsgGitInstallException h4))"

definition remove_failing_env :: env where
  \<comment> \<open>Git is absent, the download and the installer succeed, the removal of the
      temporary file always raises\<close>
  "remove_failing_env =
     (test_env (\<lambda>h cmd. Exited [] 0) (\<lambda>c. False) (\<lambda>p. False) [] (\<lambda>h. None))
       \<lparr> os_remove := (\<lambda>h p. False) \<rparr>"

definition flaky_env :: env where
  \<comment> \<open>Git is absent; the first download raises and the later ones succeed; the first
      child process exits with status 1 and the later ones with 0\<close>
  "flaky_env =
     (test_env (\<lambda>h cmd. if launches h = [] then Exited [] 1 else Exited [] 0)
        (\<lambda>c. False) (\<lambda>p. False) [] (\<lambda>h. None))
       \<lparr> urlretrieve := (\<lambda>h p. downloads h \<noteq> []) \<rparr>"


section \<open>Auxiliary definitions for \<open>find_python_entrypoint\<close>\<close>

fun prompt_history :: "env \<Rightarrow> event list \<Rightarrow> nat \<Rightarrow> event list" where
  \<comment> \<open>the history at the prompt that follows \<open>n\<close> rejected replies, \<open>h\<close> being the
      history at the first prompt\<close>
  "prompt_history e h 0 = h"
| "prompt_history e h (Suc n) =
     prompt_history e h n @ [Input (input_int e (prompt_history e h n)), Print MsgInvalidChoice]"

fun inputs :: "event list \<Rightarrow> int option list" where
  \<comment> \<open>the replies read so far\<close>
  "inputs [] = []"
| "inputs (Input r # t) = r # inputs t"
| "inputs (ev # t) = inputs t"

definition three_files_env :: env where
  \<comment> \<open>a Python project with three top-level files, none of them conventional; the user
      answers 7, then something that is no number, then 2\<close>
  "three_files_env =
     test_env (\<lambda>h cmd. Exited [] 0) (\<lambda>c. True) (\<lambda>p. p = ''proj/requirements.txt'')
       [''a.py'', ''b.py'', ''c.py'']
       (\<lambda>h. case inputs h of [] \<Rightarrow> Some 7 | [x] \<Rightarrow> None | x # y # zs \<Rightarrow> Some 2)"

definition single_file_env :: env where
  \<comment> \<open>a Python project with the single top-level file \<open>tool.py\<close>\<close>
  "single_file_env =
     test_env (\<lambda>h cmd. Exited [] 0) (\<lambda>c. True) (\<lambda>p. p = ''proj/requirements.txt'')
       [''tool.py''] (\<lambda>h. None)"


section \<open>Auxiliary definitions for \<open>do_workflow\<close>\<close>

fun line_of :: "msg \<Rightarrow> nat" where
  \<comment> \<open>the source line that gives the text of a message\<close>
  "line_of (MsgDownloadAttempt n) = 54"
| "line_of MsgDownloaded = 56"
| "line_of MsgInstallingGit = 57"
| "line_of (MsgGitInstallFailed rc) = 60"
| "line_of MsgGitInstalled = 70"
| "line_of MsgGitInstallException = 75"
| "line_of MsgGitPresent = 86"
| "line_of MsgPythonPresent = 93"
| "line_of MsgPythonMissing = 96"
| "line_of MsgNpmPresent = 102"
| "line_of MsgNpmMissing = 105"
| "line_of (MsgRunning cmd) = 110"
| "line_of (MsgOutputLine l) = 115"
| "line_of (MsgExitCode rc) = 118"
| "line_of (MsgRetry n) = 123"
| "line_of MsgCmdException = 128"
| "line_of MsgAmbiguous = 150"
| "line_of (MsgCandidate n f) = 152"
| "line_of MsgInvalidChoice = 160"
| "line_of (MsgProgress k) = 169"
| "line_of MsgCreatingWorkdir = 174"
| "line_of MsgCheckingGit = 180"
| "line_of MsgGitFailed = 182"
| "line_of (MsgRemovingOld d) = 191"
| "line_of MsgCannotRemove = 195"
| "line_of MsgCloning = 198"
| "line_of MsgCloneFailed = 201"
| "line_of (MsgCloned d) = 203"
| "line_of MsgDetectedPython = 211"
| "line_of MsgPipInstall = 214"
| "line_of MsgPipFailed = 217"
| "line_of MsgDetectedNode = 220"
| "line_of MsgNpmInstall = 223"
| "line_of MsgNpmFailed = 226"
| "line_of MsgNoTechnology = 229"
| "line_of (MsgLaunching f) = 239"
| "line_of MsgNoEntry = 242"
| "line_of MsgNpmStart = 245"
| "line_of MsgDone = 249"
| "line_of MsgCritical = 253"
| "line_of MsgBanner = 256"
| "line_of MsgBadUrl = 262"

fun messages :: "event list \<Rightarrow> msg list" where
  \<comment> \<open>the messages of a history, in order, whether logged, reported as errors or printed\<close>
  "messages [] = []"
| "messages (Log m # t) = m # messages t"
| "messages (LogError m # t) = m # messages t"
| "messages (Print m # t) = m # messages t"
| "messages (ev # t) = messages t"

definition footprint :: "nat set \<Rightarrow> string list set \<Rightarrow> event list \<Rightarrow> bool" where
  \<comment> \<open>all messages of the events come from the source lines \<open>L\<close>, and every command
      launched is in \<open>cmds\<close>\<close>
  "footprint L cmds evs =
     ((\<forall>m \<in> set (messages evs). line_of m \<in> L) \<and> set (launched_cmds evs) \<subseteq> cmds)"

definition clone_cmd :: "string \<Rightarrow> string list" where
  \<comment> \<open>the command of line 199\<close>
  "clone_cmd repo_url = [''git'', ''clone'', repo_url]"

definition target_of :: "env \<Rightarrow> string \<Rightarrow> string" where
  \<comment> \<open>\<open>target_dir\<close> of lines 188-189\<close>
  "target_of e repo_url = os_path_join e WORKDIR (parse_repo_name repo_url)"

definition pip_cmd :: "env \<Rightarrow> string list" where
  \<comment> \<open>the command of line 215\<close>
  "pip_cmd e = [sys_executable e, ''-m'', ''pip'', ''install'', ''-r'', ''requirements.txt'']"

definition install_abort :: "msg \<Rightarrow> bool" where
  \<comment> \<open>the error messages that end the dependency-install step\<close>
  "install_abort m \<longleftrightarrow> m \<in> {MsgPythonMissing, MsgPipFailed, MsgNpmMissing, MsgNpmFailed, MsgNoTechnology}"

definition workflow_start :: "event list" where
  \<comment> \<open>the events of a workflow up to the check for Git, the working folder created\<close>
  "workflow_start =
     [Print (MsgProgress 0), Log MsgCreatingWorkdir, MakeDirs WORKDIR True,
      Print (MsgProgress 1), Log MsgCheckingGit]"

definition git_ready :: "env \<Rightarrow> event list \<Rightarrow> bool" where
  \<comment> \<open>the events of \<open>ensure_git\<close> when it returned \<open>True\<close>\<close>
  "git_ready e g \<longleftrightarrow>
     footprint {54..86} {installer_cmd e} g \<and>
     (Log MsgGitPresent \<in> set g \<or> Remove (temp_path e) True \<in> set g)"

definition cloned :: "string \<Rightarrow> event list \<Rightarrow> bool" where
  \<comment> \<open>the events of the clone step when the clone command exited with status 0\<close>
  "cloned repo_url c \<longleftrightarrow>
     footprint ({110..128} \<union> {191..203}) {clone_cmd repo_url} c \<and>
     (\<exists>out. Spawn (clone_cmd repo_url) (Some WORKDIR) False (Exited out 0) \<in> set c)"

definition installed :: "env \<Rightarrow> string \<Rightarrow> event list \<Rightarrow> bool" where
  \<comment> \<open>the events of the dependency-install step when its command exited with status 0\<close>
  "installed e d i \<longleftrightarrow>
     footprint ({93..128} \<union> {211..229}) {pip_cmd e, [''npm'', ''install'']} i \<and>
     (\<exists>cmd out. cmd \<in> {pip_cmd e, [''npm'', ''install'']} \<and>
        Spawn cmd (Some d) False (Exited out 0) \<in> set i)"

definition sample_url :: string where
  "sample_url = ''https://host/org/sample-app.git''"

definition sample_dir :: string where
  \<comment> \<open>the directory the sample repository is cloned to, with the path separator of
      \<open>test_env\<close>\<close>
  "sample_dir = WORKDIR @ ''/sample-app''"

definition bare_env :: env where
  \<comment> \<open>every tool is present and every command succeeds; the project has no manifest\<close>
  "bare_env = test_env (\<lambda>h cmd. Exited [] 0) (\<lambda>c. True) (\<lambda>p. False) [] (\<lambda>h. None)"

definition no_entry_env :: env where
  \<comment> \<open>a Python project of the sample repository with a manifest and no Python file\<close>
  "no_entry_env =
     test_env (\<lambda>h cmd. Exited [] 0) (\<lambda>c. True)
       (\<lambda>p. p = sample_dir @ ''/requirements.txt'') [] (\<lambda>h. None)"

definition crashing_env :: env where
  \<comment> \<open>a Python project of the sample repository whose \<open>main.py\<close> exits with status 3\<close>
  "crashing_env =
     test_env (\<lambda>h cmd. if cmd = [''python'', ''main.py''] then Exited [] 3 else Exited [] 0)
       (\<lambda>c. True)
       (\<lambda>p. p = sample_dir @ ''/requirements.txt'' \<or> p = sample_dir @ ''/main.py'')
       [''main.py''] (\<lambda>h. None)"

definition clone_events :: "event list" where
  \<comment> \<open>the first three steps of a run for the sample repository, all successful\<close>
  "clone_events =
     [Print (MsgProgress 0), Log MsgCreatingWorkdir, MakeDirs WORKDIR True,
      Print (MsgProgress 1), Log MsgCheckingGit, Log MsgGitPresent,
      Print (MsgProgress 2), Log MsgCloning, Log (MsgRunning [''git'', ''clone'', sample_url]),
      Spawn [''git'', ''clone'', sample_url] (Some WORKDIR) False (Exited [] 0),
      Log (MsgCloned sample_dir), Print (MsgProgress 3)]"

definition pip_events :: "event list" where
  \<comment> \<open>a successful dependency-install step of a Python project\<close>
  "pip_events =
     [Log MsgDetectedPython, Log MsgPythonPresent, Log MsgPipInstall,
      Log (MsgRunning [''python'', ''-m'', ''pip'', ''install'', ''-r'', ''requirements.txt'']),
      Spawn [''python'', ''-m'', ''pip'', ''install'', ''-r'', ''requirements.txt'']
        (Some sample_dir) False (Exited [] 0),
      Print (MsgProgress 4)]"

fun abort_step :: "msg \<Rightarrow> nat option" where
  \<comment> \<open>the value of \<open>step_idx\<close> at which the workflow returns after the error message\<close>
  "abort_step MsgCritical = Some 0"
| "abort_step MsgGitFailed = Some 1"
| "abort_step MsgCannotRemove = Some 2"
| "abort_step MsgCloneFailed = Some 2"
| "abort_step MsgPythonMissing = Some 3"
| "abort_step MsgPipFailed = Some 3"
| "abort_step MsgNpmMissing = Some 3"
| "abort_step MsgNpmFailed = Some 3"
| "abort_step MsgNoTechnology = Some 3"
| "abort_step m = None"

definition step_cmds :: "env \<Rightarrow> string \<Rightarrow> nat \<Rightarrow> string list set" where
  \<comment> \<open>the commands that the steps up to step \<open>n\<close>, the run step apart, may launch\<close>
  "step_cmds e repo_url n =
     (if 2 \<le> n then {installer_cmd e} else {}) \<union>
     (if 3 \<le> n then {clone_cmd repo_url} else {}) \<union>
     (if 4 \<le> n then {pip_cmd e, [''npm'', ''install'']} else {})"

definition steps_done :: "env \<Rightarrow> string \<Rightarrow> nat \<Rightarrow> event list \<Rightarrow> bool" where
  \<comment> \<open>what the history holds of the success of each of the first \<open>k\<close> steps, the run
      step apart\<close>
  "steps_done e repo_url k evs \<longleftrightarrow>
     (1 \<le> k \<longrightarrow> MakeDirs WORKDIR True \<in> set evs) \<and>
     (2 \<le> k \<longrightarrow> Log MsgGitPresent \<in> set evs \<or> Remove (temp_path e) True \<in> set evs) \<and>
     (3 \<le> k \<longrightarrow> (\<exists>out. Spawn (clone_cmd repo_url) (Some WORKDIR) False (Exited out 0) \<in> set evs)) \<and>
     (4 \<le> k \<longrightarrow> (\<exists>cmd out. cmd \<in> {pip_cmd e, [''npm'', ''install'']} \<and>
         Spawn cmd (Some (target_of e repo_url)) False (Exited out 0) \<in> set evs))"


definition working_env :: env where
  \<comment> \<open>a Python project of the sample repository whose \<open>main.py\<close> exits with status 0\<close>
  "working_env =
     test_env (\<lambda>h cmd. Exited [] 0) (\<lambda>c. True)
       (\<lambda>p. p = sample_dir @ ''/requirements.txt'' \<or> p = sample_dir @ ''/main.py'')
       [''main.py''] (\<lambda>h. None)"

definition crash_events :: "event list" where
  \<comment> \<open>the launch of \<open>main.py\<close> in \<open>crashing_env\<close>: two attempts, both exiting with 3\<close>
  "crash_events =
     [Log (MsgLaunching ''main.py''), Log (MsgRunning [''python'', ''main.py'']),
      Spawn [''python'', ''main.py''] (Some sample_dir) False (Exited [] 3),
      LogError (MsgExitCode 3), Log (MsgRetry 2),
      Spawn [''python'', ''main.py''] (Some sample_dir) False (Exited [] 3),
      LogError (MsgExitCode 3)]"

definition failed_clone_events :: "event list" where
  \<comment> \<open>a run in \<open>failing_env\<close>: the clone command exits with 3 twice\<close>
  "failed_clone_events =
     [Print (MsgProgress 0), Log MsgCreatingWorkdir, MakeDirs WORKDIR True,
      Print (MsgProgress 1), Log MsgCheckingGit, Log MsgGitPresent,
      Print (MsgProgress 2), Log MsgCloning, Log (MsgRunning [''git'', ''clone'', sample_url]),
      Spawn [''git'', ''clone'', sample_url] (Some WORKDIR) False (Exited [] 3),
      LogError (MsgExitCode 3), Log (MsgRetry 2),
      Spawn [''git'', ''clone'', sample_url] (Some WORKDIR) False (Exited [] 3),
      LogError (MsgExitCode 3), LogError MsgCloneFailed]"


section \<open>Facts about the string primitives\<close>

lemma split_char_nonempty: "split_char sep s \<noteq> []"
  by (induction s) (auto split: list.splits)

lemma split_char_no_sep: "sep \<notin> set s \<Longrightarrow> split_char sep s = [s]"
  by (induction s) auto

lemma last_split_char_Cons:
  "last (split_char sep (c # t)) = (if t = [] \<and> c \<noteq> sep then [c] else
     if sep \<notin> set t \<and> c \<noteq> sep then c # t else last (split_char sep t))"
proof (cases "sep \<in> set t")
  case False
  then show ?thesis by (auto simp: split_char_no_sep)
next
  case True
  have two: "\<And>w. split_char sep t \<noteq> [w]"
  proof
    fix w assume "split_char sep t = [w]"
    moreover have "split_char sep t = [w] \<Longrightarrow> sep \<notin> set t"
      by (induction t arbitrary: w)
        (auto simp: split_char_nonempty split: if_splits list.splits)
    ultimately show False using True by blast
  qed
  obtain w ws where ws: "split_char sep t = w # ws"
    using split_char_nonempty [of sep t] by (cases "split_char sep t") auto
  with two have "ws \<noteq> []" by auto
  with ws True show ?thesis by auto
qed

lemma last_split_char_append:
  "sep \<notin> set seg \<Longrightarrow> pre = [] \<or> last pre = sep \<Longrightarrow>
   last (split_char sep (pre @ seg)) = seg"
proof (induction pre)
  case Nil
  then show ?case by (simp add: split_char_no_sep)
next
  case (Cons c pre)
  show ?case
  proof (cases "pre = []")
    case True
    with Cons.prems show ?thesis by (simp add: split_char_no_sep)
  next
    case False
    with Cons.prems have l: "last pre = sep" by simp
    with Cons.IH Cons.prems have ih: "last (split_char sep (pre @ seg)) = seg" by simp
    have "sep \<in> set pre" using False l last_in_set by fastforce
    then have "sep \<in> set (pre @ seg)" by simp
    moreover have "pre @ seg \<noteq> []" using False by simp
    ultimately have "last (split_char sep (c # (pre @ seg))) = last (split_char sep (pre @ seg))"
      by (simp only: last_split_char_Cons if_False simp_thms)
    with ih show ?thesis by simp
  qed
qed

lemma rstrip_chars_replicate:
  "r = [] \<or> last r \<noteq> c \<Longrightarrow> rstrip_chars [c] (r @ replicate k c) = r"
proof -
  assume a: "r = [] \<or> last r \<noteq> c"
  have "dropWhile (\<lambda>x. x = c) (replicate k c @ rev r) = rev r"
  proof (induction k)
    case 0
    from a show ?case by (cases "rev r") (auto simp: last_rev)
  next
    case (Suc k)
    then show ?case by simp
  qed
  then show ?thesis by (simp add: rstrip_chars_def)
qed

lemma endswith_iff: "endswith s suf \<longleftrightarrow> (\<exists>n. s = n @ suf)"
proof
  assume "endswith s suf"
  then have "drop (length s - length suf) s = suf" by (simp add: endswith_def)
  then have "s = take (length s - length suf) s @ suf" by (metis append_take_drop_id)
  then show "\<exists>n. s = n @ suf" ..
next
  assume "\<exists>n. s = n @ suf"
  then obtain n where "s = n @ suf" ..
  then show "endswith s suf" by (simp add: endswith_def)
qed

lemma takeWhile_eq_replicate:
  "takeWhile (\<lambda>c. c = a) xs = replicate (length (takeWhile (\<lambda>c. c = a) xs)) a"
  by (induction xs) auto

lemma last_rev_dropWhile:
  "rev (dropWhile P xs) = [] \<or> \<not> P (last (rev (dropWhile P xs)))"
proof (cases "dropWhile P xs")
  case Nil
  then show ?thesis by simp
next
  case (Cons y ys)
  then have "\<not> P y" using hd_dropWhile [of P xs] by simp
  with Cons show ?thesis by simp
qed

section \<open>The derived repository name\<close>

lemma parse_repo_name_segment:
  assumes "final_segment_of url pre seg k"
  shows "parse_repo_name url = (if endswith seg ''.git'' then drop_last 4 seg else seg)"
proof -
  from assms have u: "url = (pre @ seg) @ replicate k CHR ''/''"
    and ns: "CHR ''/'' \<notin> set seg" and p: "pre = [] \<or> last pre = CHR ''/''"
    and e: "seg = [] \<longrightarrow> pre = []"
    by (simp_all add: final_segment_of_def)
  have "pre @ seg = [] \<or> last (pre @ seg) \<noteq> CHR ''/''"
    using ns e by (cases "seg = []") (auto dest: last_in_set)
  then have "rstrip_chars ''/'' url = pre @ seg"
    unfolding u by (rule rstrip_chars_replicate)
  moreover have "last (split_char CHR ''/'' (pre @ seg)) = seg"
    using ns p by (rule last_split_char_append)
  ultimately show ?thesis by (simp add: parse_repo_name_def)
qed

lemma final_segment_exists: "\<exists>pre seg k. final_segment_of url pre seg k"
proof -
  define r where "r = rstrip_chars ''/'' url"
  define k where "k = length (takeWhile (\<lambda>c. c = CHR ''/'') (rev url))"
  define seg where "seg = rev (takeWhile (\<lambda>c. c \<noteq> CHR ''/'') (rev r))"
  define pre where "pre = rev (dropWhile (\<lambda>c. c \<noteq> CHR ''/'') (rev r))"
  have tw: "takeWhile (\<lambda>c. c = CHR ''/'') (rev url) = replicate k CHR ''/''"
    unfolding k_def by (rule takeWhile_eq_replicate)
  have rr: "rev r = dropWhile (\<lambda>c. c = CHR ''/'') (rev url)"
    by (simp add: r_def rstrip_chars_def)
  have "rev url = replicate k CHR ''/'' @ rev r"
    using takeWhile_dropWhile_id [of "\<lambda>c. c = CHR ''/''" "rev url"] tw rr by simp
  then have "rev (rev url) = rev (replicate k CHR ''/'' @ rev r)" by simp
  then have u: "url = r @ replicate k CHR ''/''" by simp
  have "rev r = takeWhile (\<lambda>c. c \<noteq> CHR ''/'') (rev r) @ dropWhile (\<lambda>c. c \<noteq> CHR ''/'') (rev r)"
    by simp
  then have "rev (rev r) = pre @ seg"
    unfolding pre_def seg_def by (simp only: rev_append [symmetric])
  then have r: "r = pre @ seg" by simp
  have ns: "CHR ''/'' \<notin> set seg"
    unfolding seg_def by (auto dest: set_takeWhileD)
  have p: "pre = [] \<or> last pre = CHR ''/''"
    unfolding pre_def using last_rev_dropWhile [of "\<lambda>c. c \<noteq> CHR ''/''" "rev r"] by simp
  have rl: "r = [] \<or> last r \<noteq> CHR ''/''"
    using last_rev_dropWhile [of "\<lambda>c. c = CHR ''/''" "rev url"] rr [symmetric] by simp
  have e: "seg = [] \<longrightarrow> pre = []"
  proof
    assume "seg = []"
    with r have "r = pre" by simp
    with p rl show "pre = []" by auto
  qed
  from u r ns p e show ?thesis unfolding final_segment_of_def by auto
qed

text \<open>
  Claim C5.  Every repository URL ends in a final path segment followed by its trailing
  slashes, and \<open>parse_repo_name\<close> returns that segment with one trailing \<open>.git\<close> removed
  when the segment ends in \<open>.git\<close>, and the segment itself otherwise.  Only one suffix is
  removed: of \<open>n @ ''.git''\<close> the result is \<open>n\<close>, whatever \<open>n\<close> ends in.  The result
  depends on the URL alone, so that repeated calls agree.
\<close>

theorem parse_repo_name_final_segment:
  "(\<exists>pre seg k. final_segment_of repo_url pre seg k) \<and>
   (\<forall>pre seg k. final_segment_of repo_url pre seg k \<longrightarrow>
      (\<forall>n. seg = n @ ''.git'' \<longrightarrow> parse_repo_name repo_url = n) \<and>
      ((\<nexists>n. seg = n @ ''.git'') \<longrightarrow> parse_repo_name repo_url = seg))"
proof (intro conjI allI impI)
  show "\<exists>pre seg k. final_segment_of repo_url pre seg k" by (rule final_segment_exists)
next
  fix pre seg k n
  assume d: "final_segment_of repo_url pre seg k" and s: "seg = n @ ''.git''"
  have "endswith seg ''.git''" using s endswith_iff by blast
  moreover have "drop_last 4 seg = n" unfolding s by (simp add: drop_last_def)
  ultimately show "parse_repo_name repo_url = n" using parse_repo_name_segment [OF d] by simp
next
  fix pre seg k
  assume d: "final_segment_of repo_url pre seg k" and s: "\<nexists>n. seg = n @ ''.git''"
  then have "\<not> endswith seg ''.git''" using endswith_iff by blast
  then show "parse_repo_name repo_url = seg" using parse_repo_name_segment [OF d] by simp
qed

theorem parse_repo_name_final_segment_witness:
  "final_segment_of ''https://host/org/sample-app.git'' ''https://host/org/'' ''sample-app.git'' 0
   \<and> parse_repo_name ''https://host/org/sample-app.git'' = ''sample-app''
   \<and> final_segment_of ''http://h/a.git.git//'' ''http://h/'' ''a.git.git'' 2
   \<and> parse_repo_name ''http://h/a.git.git//'' = ''a.git''
   \<and> final_segment_of ''http://h/tool/'' ''http://h/'' ''tool'' 1
   \<and> parse_repo_name ''http://h/tool/'' = ''tool''"
proof -
  have a: "final_segment_of ''https://host/org/sample-app.git'' ''https://host/org/''
             ''sample-app.git'' 0"
    by (simp add: final_segment_of_def)
  have b: "final_segment_of ''http://h/a.git.git//'' ''http://h/'' ''a.git.git'' 2"
    by (simp add: final_segment_of_def numeral_2_eq_2)
  have c: "final_segment_of ''http://h/tool/'' ''http://h/'' ''tool'' 1"
    by (simp add: final_segment_of_def)
  have "\<not> endswith ''tool'' ''.git''" by (simp add: endswith_def)
  then have nc: "\<nexists>n. ''tool'' = n @ ''.git''"
    by (simp only: endswith_iff not_False_eq_True)
  have 1: "parse_repo_name ''https://host/org/sample-app.git'' = ''sample-app''"
    using parse_repo_name_final_segment
            [of "''https://host/org/sample-app.git''", THEN conjunct2, rule_format, OF a,
             THEN conjunct1, rule_format, of "''sample-app''"]
    by simp
  have 2: "parse_repo_name ''http://h/a.git.git//'' = ''a.git''"
    using parse_repo_name_final_segment
            [of "''http://h/a.git.git//''", THEN conjunct2, rule_format, OF b,
             THEN conjunct1, rule_format, of "''a.git''"]
    by simp
  have 3: "parse_repo_name ''http://h/tool/'' = ''tool''"
    using parse_repo_name_final_segment
            [of "''http://h/tool/''", THEN conjunct2, rule_format, OF c,
             THEN conjunct2, rule_format, OF nc] .
  from a b c 1 2 3 show ?thesis by (intro conjI)
qed

section \<open>The retry loop of \<open>run_cmd\<close>\<close>

lemma attempt_numbers: "[1 ..< MAX_ATTEMPTS + 1] = [1, 2]"
  by (simp add: MAX_ATTEMPTS_def upt_rec)

lemma launches_append: "launches (a @ b) = launches a @ launches b"
  by (induction a rule: launches.induct) simp_all

lemma launched_cmds_append: "launched_cmds (a @ b) = launched_cmds a @ launched_cmds b"
  by (induction a rule: launched_cmds.induct) simp_all

lemma launches_log_lines: "launches (map (\<lambda>l. Log (f l)) out) = []"
  by (induction out) simp_all

lemma launched_cmds_log_lines: "launched_cmds (map (\<lambda>l. Log (f l)) out) = []"
  by (induction out) simp_all

lemma events_since_append: "events_since h (h @ evs) = evs"
  by (simp add: events_since_def)

lemma launches_attempt_events [simp]: "launches (attempt_events cmd cwd shell r) = [r]"
  by (cases r) (simp_all add: attempt_events_def launches_append launches_log_lines)

lemma launched_cmds_attempt_events [simp]:
  "launched_cmds (attempt_events cmd cwd shell r) = [cmd]"
  by (cases r) (simp_all add: attempt_events_def launched_cmds_append launched_cmds_log_lines)

lemma run_cmd_unfold:
  "run_cmd e cmd cwd shell h =
     (let h0 = h @ [Log (MsgRunning cmd)];
          r1 = subprocess e h0 cmd cwd shell;
          h1 = h0 @ attempt_events cmd cwd shell r1
      in if exit_zero r1 then (0, h1)
         else
           let h1' = (if raised r1 then h1 else h1 @ [Log (MsgRetry 2)]);
               r2 = subprocess e h1' cmd cwd shell;
               h2 = h1' @ attempt_events cmd cwd shell r2
           in (case r2 of Exited out rc \<Rightarrow> rc | Raised out \<Rightarrow> - 1, h2))"
proof -
  define h0 where "h0 = h @ [Log (MsgRunning cmd)]"
  define r1 where "r1 = subprocess e h0 cmd cwd shell"
  define h1 where "h1 = h0 @ attempt_events cmd cwd shell r1"
  define h1' where "h1' = (if raised r1 then h1 else h1 @ [Log (MsgRetry 2)])"
  define r2 where "r2 = subprocess e h1' cmd cwd shell"
  define h2 where "h2 = h1' @ attempt_events cmd cwd shell r2"
  have second: "run_cmd_loop e cmd cwd shell [2] h1' =
                  (case r2 of Exited out rc \<Rightarrow> rc | Raised out \<Rightarrow> - 1, h2)"
    by (cases r2)
      (simp_all add: r2_def [symmetric] h2_def Let_def log_error_def log_lines_def
         attempt_events_def MAX_ATTEMPTS_def)
  have first: "run_cmd_loop e cmd cwd shell [1, 2] h0 =
                 (if exit_zero r1 then (0, h1) else run_cmd_loop e cmd cwd shell [2] h1')"
    by (cases r1; subst run_cmd_loop.simps(2);
        simp add: r1_def [symmetric] h1_def h1'_def Let_def log_def log_error_def
          log_lines_def attempt_events_def MAX_ATTEMPTS_def numeral_2_eq_2 [symmetric]
          del: run_cmd_loop.simps)
  show ?thesis
    unfolding run_cmd_def attempt_numbers log_def Let_def
    using first second
    by (simp add: h0_def r1_def h1_def h1'_def r2_def h2_def)
qed

lemma exit_nonzero_not_zero: "exit_nonzero r \<Longrightarrow> \<not> exit_zero r"
  by (cases r) simp_all

lemma run_failing: "run_cmd failing_env [''git''] None False [] =
   (3, [Log (MsgRunning [''git'']), Spawn [''git''] None False (Exited [] 3),
        LogError (MsgExitCode 3), Log (MsgRetry 2), Spawn [''git''] None False (Exited [] 3),
        LogError (MsgExitCode 3)])"
  by (simp add: run_cmd_unfold Let_def failing_env_def test_env_def attempt_events_def)

lemma run_unl: "run_cmd unlaunchable_env [''git''] None False [] =
   (- 1, [Log (MsgRunning [''git'']), Spawn [''git''] None False (Raised []),
        LogError MsgCmdException, Spawn [''git''] None False (Raised []),
        LogError MsgCmdException])"
  by (simp add: run_cmd_unfold Let_def unlaunchable_env_def test_env_def attempt_events_def)

text \<open>
  Claim C2.  Whatever the command and the environment, \<open>run_cmd\<close> creates the process at
  least once and at most \<open>MAX_ATTEMPTS\<close> times, always with the command it was given; an
  attempt that exits with status zero is the last one, and the result is then zero; and
  when every attempt exits with a status other than zero, the result is the status of
  the last attempt.
\<close>

theorem run_cmd_bounded_attempts:
  assumes "run_cmd e cmd cwd shell h = (rc, t)"
  shows "(let ls = launches (events_since h t)
          in 1 \<le> length ls \<and> length ls \<le> MAX_ATTEMPTS \<and>
             launched_cmds (events_since h t) = replicate (length ls) cmd \<and>
             (\<forall>r \<in> set (butlast ls). \<not> exit_zero r) \<and>
             (exit_zero (last ls) \<longrightarrow> rc = 0) \<and>
             ((\<forall>r \<in> set ls. exit_nonzero r) \<longrightarrow> status (last ls) = Some rc))"
proof -
  define h0 where "h0 = h @ [Log (MsgRunning cmd)]"
  define r1 where "r1 = subprocess e h0 cmd cwd shell"
  define h1 where "h1 = (if raised r1 then h0 @ attempt_events cmd cwd shell r1
                         else (h0 @ attempt_events cmd cwd shell r1) @ [Log (MsgRetry 2)])"
  define r2 where "r2 = subprocess e h1 cmd cwd shell"
  have eq: "run_cmd e cmd cwd shell h =
              (if exit_zero r1 then (0, h0 @ attempt_events cmd cwd shell r1)
               else (case r2 of Exited out rc \<Rightarrow> rc | Raised out \<Rightarrow> - 1,
                     h1 @ attempt_events cmd cwd shell r2))"
    unfolding run_cmd_unfold Let_def h0_def r1_def h1_def r2_def by simp
  show ?thesis
  proof (cases "exit_zero r1")
    case True
    with assms eq have "rc = 0" and "t = h0 @ attempt_events cmd cwd shell r1"
      by simp_all
    with True exit_nonzero_not_zero [of r1] show ?thesis
      by (auto simp: h0_def events_since_def launches_append launched_cmds_append
            MAX_ATTEMPTS_def)
  next
    case False
    with assms eq have rc: "rc = (case r2 of Exited out rc \<Rightarrow> rc | Raised out \<Rightarrow> - 1)"
      and t: "t = h1 @ attempt_events cmd cwd shell r2"
      by simp_all
    have ev: "events_since h t =
                Log (MsgRunning cmd) # attempt_events cmd cwd shell r1 @
                (if raised r1 then [] else [Log (MsgRetry 2)]) @ attempt_events cmd cwd shell r2"
      by (simp add: t h1_def h0_def events_since_def)
    have ls: "launches (events_since h t) = [r1, r2]"
      by (simp add: ev launches_append)
    have cs: "launched_cmds (events_since h t) = [cmd, cmd]"
      by (simp add: ev launched_cmds_append)
    from False rc show ?thesis
      by (cases r2) (simp_all add: ls cs MAX_ATTEMPTS_def)
  qed
qed


theorem run_cmd_bounded_attempts_witness:
  "run_cmd failing_env [''git''] None False [] =
     (3, [Log (MsgRunning [''git'']), Spawn [''git''] None False (Exited [] 3),
          LogError (MsgExitCode 3), Log (MsgRetry 2), Spawn [''git''] None False (Exited [] 3),
          LogError (MsgExitCode 3)]) \<and>
   launches (events_since [] (snd (run_cmd failing_env [''git''] None False []))) =
     [Exited [] 3, Exited [] 3] \<and>
   exit_nonzero (Exited [] 3) \<and>
   status (last [Exited [] 3, Exited [] 3]) = Some 3 \<and> 2 \<le> MAX_ATTEMPTS"
  using run_cmd_bounded_attempts [OF run_failing]
  by (simp add: run_failing events_since_def)

lemma run_hangup: "run_cmd hangup_env [''git''] None False [] =
   (- 1, [Log (MsgRunning [''git'']), Spawn [''git''] None False (Exited [] (- 1)),
        LogError (MsgExitCode (- 1)), Log (MsgRetry 2),
        Spawn [''git''] None False (Exited [] (- 1)), LogError (MsgExitCode (- 1))])"
  by (simp add: run_cmd_unfold Let_def hangup_env_def test_env_def attempt_events_def)

lemma run_unreadable: "run_cmd unreadable_env [''git''] None False [] =
   (- 1, [Log (MsgRunning [''git'']), Spawn [''git''] None False (Raised [''started'']),
        Log (MsgOutputLine ''started''), LogError MsgCmdException,
        Spawn [''git''] None False (Raised [''started'']),
        Log (MsgOutputLine ''started''), LogError MsgCmdException])"
  by (simp add: run_cmd_unfold Let_def unreadable_env_def test_env_def attempt_events_def)

text \<open>
  Claim C7, as stated, fails: the result \<open>- 1\<close> is not distinct from the exit status of a
  process that ran.  Where the process is launched, runs and ends with status \<open>- 1\<close> on
  both attempts, no attempt raises and \<open>run_cmd\<close> returns \<open>- 1\<close>, the very result it
  returns where the process cannot be launched at all.  The result is \<open>- 1\<close> also where the
  process was launched and wrote a line before the reading of its output raised.
\<close>

theorem run_cmd_sentinel_not_distinct_counterexample:
  "run_cmd hangup_env [''git''] None False [] =
     (- 1, [Log (MsgRunning [''git'']), Spawn [''git''] None False (Exited [] (- 1)),
        LogError (MsgExitCode (- 1)), Log (MsgRetry 2),
        Spawn [''git''] None False (Exited [] (- 1)), LogError (MsgExitCode (- 1))]) \<and>
   launches (events_since [] (snd (run_cmd hangup_env [''git''] None False []))) =
     [Exited [] (- 1), Exited [] (- 1)] \<and>
   \<not> raised (Exited [] (- 1)) \<and> status (Exited [] (- 1)) = Some (- 1) \<and>
   fst (run_cmd hangup_env [''git''] None False []) =
     fst (run_cmd unlaunchable_env [''git''] None False []) \<and>
   run_cmd unreadable_env [''git''] None False [] =
     (- 1, [Log (MsgRunning [''git'']), Spawn [''git''] None False (Raised [''started'']),
        Log (MsgOutputLine ''started''), LogError MsgCmdException,
        Spawn [''git''] None False (Raised [''started'']),
        Log (MsgOutputLine ''started''), LogError MsgCmdException])"
  by (simp add: run_hangup run_unl run_unreadable events_since_def)

text \<open>
  Claim C7, amended.  An attempt of \<open>run_cmd\<close> that raises, while the process is created
  or while its output is read, is retried exactly as an attempt that exits with a status
  other than zero is: after either, the process is created again, \<open>MAX_ATTEMPTS\<close> times in
  all.  When the last attempt raised, the result is \<open>- 1\<close>.  The result is \<open>- 1\<close> exactly
  when the last attempt raised or its process ran and ended with status \<open>- 1\<close>.
\<close>

theorem run_cmd_exception_sentinel:
  assumes "run_cmd e cmd cwd shell h = (rc, t)"
  shows "(let ls = launches (events_since h t)
          in ls \<noteq> [] \<and>
             (raised (hd ls) \<longrightarrow> length ls = MAX_ATTEMPTS) \<and>
             (exit_nonzero (hd ls) \<longrightarrow> length ls = MAX_ATTEMPTS) \<and>
             (raised (last ls) \<longrightarrow> rc = - 1) \<and>
             (rc = - 1 \<longleftrightarrow> raised (last ls) \<or> status (last ls) = Some (- 1)))"
proof -
  define h0 where "h0 = h @ [Log (MsgRunning cmd)]"
  define r1 where "r1 = subprocess e h0 cmd cwd shell"
  define h1 where "h1 = (if raised r1 then h0 @ attempt_events cmd cwd shell r1
                         else (h0 @ attempt_events cmd cwd shell r1) @ [Log (MsgRetry 2)])"
  define r2 where "r2 = subprocess e h1 cmd cwd shell"
  have eq: "run_cmd e cmd cwd shell h =
              (if exit_zero r1 then (0, h0 @ attempt_events cmd cwd shell r1)
               else (case r2 of Exited out rc \<Rightarrow> rc | Raised out \<Rightarrow> - 1,
                     h1 @ attempt_events cmd cwd shell r2))"
    unfolding run_cmd_unfold Let_def h0_def r1_def h1_def r2_def by simp
  show ?thesis
  proof (cases "exit_zero r1")
    case True
    with assms eq have "rc = 0" and "t = h0 @ attempt_events cmd cwd shell r1"
      by simp_all
    with True show ?thesis
      by (cases r1) (simp_all add: h0_def events_since_def launches_append)
  next
    case False
    with assms eq have rc: "rc = (case r2 of Exited out rc \<Rightarrow> rc | Raised out \<Rightarrow> - 1)"
      and t: "t = h1 @ attempt_events cmd cwd shell r2"
      by simp_all
    have ev: "events_since h t =
                Log (MsgRunning cmd) # attempt_events cmd cwd shell r1 @
                (if raised r1 then [] else [Log (MsgRetry 2)]) @ attempt_events cmd cwd shell r2"
      by (simp add: t h1_def h0_def events_since_def)
    have ls: "launches (events_since h t) = [r1, r2]"
      by (simp add: ev launches_append)
    from rc show ?thesis
      by (cases r2) (auto simp: ls MAX_ATTEMPTS_def)
  qed
qed

theorem run_cmd_exception_sentinel_witness:
  "run_cmd unlaunchable_env [''git''] None False [] =
     (- 1, [Log (MsgRunning [''git'']), Spawn [''git''] None False (Raised []),
        LogError MsgCmdException, Spawn [''git''] None False (Raised []),
        LogError MsgCmdException]) \<and>
   launches (events_since [] (snd (run_cmd unlaunchable_env [''git''] None False []))) =
     [Raised [], Raised []] \<and>
   raised (last [Raised [], Raised []]) \<and> status (Raised []) = None"
  using run_cmd_exception_sentinel [OF run_unl] by (simp add: run_unl events_since_def)

section \<open>\<open>install_git\<close> and \<open>ensure_git\<close>\<close>

lemma install_git_loop_step:
  "install_git_loop e (attempt # rest) h =
     (let (ok, evs) = install_attempt e attempt h
      in if ok then (True, h @ evs)
         else if attempt = MAX_ATTEMPTS then (False, h @ evs)
         else install_git_loop e rest (h @ evs))"
  by (simp add: install_attempt_def Let_def log_def log_error_def
        split: proc_result.splits)

lemma install_git_unfold:
  "install_git e h =
     (let (ok1, ev1) = install_attempt e 1 h
      in if ok1 then (True, h @ ev1)
         else let (ok2, ev2) = install_attempt e 2 (h @ ev1)
              in (ok2, h @ ev1 @ ev2))"
  unfolding install_git_def attempt_numbers
  by (simp add: install_git_loop_step Let_def MAX_ATTEMPTS_def split: prod.splits
        del: install_git_loop.simps)

lemma downloads_append: "downloads (a @ b) = downloads a @ downloads b"
  by (induction a rule: downloads.induct) simp_all

lemma removals_append: "removals (a @ b) = removals a @ removals b"
  by (induction a rule: removals.induct) simp_all

lemma attempt_starts_append: "attempt_starts (a @ b) = attempt_starts a @ attempt_starts b"
  by (induction a rule: attempt_starts.induct) simp_all

lemma install_attempt_obs:
  assumes "install_attempt e a h = (ok, evs)"
  shows "attempt_starts evs = [a]"
    and "length (downloads evs) = 1"
    and "length (launches evs) \<le> 1"
    and "launches evs \<noteq> [] \<longleftrightarrow> downloads evs = [True]"
    and "launched_cmds evs = replicate (length (launches evs)) (installer_cmd e)"
    and "length (removals evs) = length (filter exit_zero (launches evs))"
    and "ok \<longleftrightarrow> removals evs = [True]"
    and "ok \<longleftrightarrow> evs \<noteq> [] \<and> last evs = Remove (temp_path e) True"
    and "removals evs = [] \<or> removals evs = [False] \<or> removals evs = [True]"
  using assms
  by (auto simp: install_attempt_def Let_def split: if_splits proc_result.splits)

lemma run_remove_failing:
  "install_git remove_failing_env [] =
     (False,
      [Log (MsgDownloadAttempt 1), UrlRetrieve ''tmp/Git-64-bit.exe'' True, Log MsgDownloaded,
       Log MsgInstallingGit,
       Spawn [''tmp/Git-64-bit.exe'', ''/VERYSILENT'', ''/NORESTART''] None False (Exited [] 0),
       Log MsgGitInstalled, Remove ''tmp/Git-64-bit.exe'' False,
       LogError MsgGitInstallException,
       Log (MsgDownloadAttempt 2), UrlRetrieve ''tmp/Git-64-bit.exe'' True, Log MsgDownloaded,
       Log MsgInstallingGit,
       Spawn [''tmp/Git-64-bit.exe'', ''/VERYSILENT'', ''/NORESTART''] None False (Exited [] 0),
       Log MsgGitInstalled, Remove ''tmp/Git-64-bit.exe'' False,
       LogError MsgGitInstallException])"
  by (simp add: install_git_unfold install_attempt_def Let_def remove_failing_env_def
        test_env_def temp_path_def installer_cmd_def)

lemma flaky_code:
  "ensure_git flaky_env [] =
     (False,
      [Log (MsgDownloadAttempt 1), UrlRetrieve ''tmp/Git-64-bit.exe'' False,
       LogError MsgGitInstallException,
       Log (MsgDownloadAttempt 2), UrlRetrieve ''tmp/Git-64-bit.exe'' True, Log MsgDownloaded,
       Log MsgInstallingGit,
       Spawn [''tmp/Git-64-bit.exe'', ''/VERYSILENT'', ''/NORESTART''] None False (Exited [] 1),
       LogError (MsgGitInstallFailed 1)])"
  by (simp add: ensure_git_def check_exe_def install_git_unfold install_attempt_def Let_def
        flaky_env_def test_env_def temp_path_def installer_cmd_def)

lemma flaky_spec:
  "spec_ensure_git flaky_env [] =
     (True,
      [Log (MsgDownloadAttempt 1), UrlRetrieve ''tmp/Git-64-bit.exe'' False,
       LogError MsgGitInstallException,
       Log (MsgDownloadAttempt 2), UrlRetrieve ''tmp/Git-64-bit.exe'' True, Log MsgDownloaded,
       Log MsgInstallingGit,
       Log (MsgRunning [''tmp/Git-64-bit.exe'', ''/VERYSILENT'', ''/NORESTART'']),
       Spawn [''tmp/Git-64-bit.exe'', ''/VERYSILENT'', ''/NORESTART''] None False (Exited [] 1),
       LogError (MsgExitCode 1), Log (MsgRetry 2),
       Spawn [''tmp/Git-64-bit.exe'', ''/VERYSILENT'', ''/NORESTART''] None False (Exited [] 0),
       Log MsgGitInstalled, Remove ''tmp/Git-64-bit.exe'' True])"
  unfolding spec_ensure_git_def attempt_numbers
  by (simp add: check_exe_def run_cmd_unfold attempt_events_def Let_def
        flaky_env_def test_env_def temp_path_def installer_cmd_def log_def log_error_def)

text \<open>
  Claim C9.  In \<open>install_git\<close> the removal of the temporary installer file is attempted
  after every run of the installer that exits with status 0, and the result is \<open>True\<close>
  only when the last removal succeeded: a removal that raises on the last attempt makes
  the result \<open>False\<close> although the installer succeeded.  When the first attempt
  downloads, installs with status 0 and then fails to remove the file, a second attempt
  is made from the start: it is announced, it downloads again, and if that download
  succeeds it runs the installer again.
\<close>

theorem install_git_remove_failure:
  assumes "install_git e h = (ok, t)"
  shows "(let evs = events_since h t; ds = downloads evs; ls = launches evs;
              rs = removals evs
          in length rs = length (filter exit_zero ls) \<and>
             (ok \<longleftrightarrow> rs \<noteq> [] \<and> last rs) \<and>
             (hd ds \<and> ls \<noteq> [] \<and> exit_zero (hd ls) \<and> rs \<noteq> [] \<and> \<not> hd rs \<longrightarrow>
                attempt_starts evs = [1, 2] \<and> length ds = 2 \<and>
                (ds ! 1 \<longrightarrow> length ls = 2)))"
proof -
  obtain ok1 ev1 where a1: "install_attempt e 1 h = (ok1, ev1)"
    by (cases "install_attempt e 1 h")
  obtain ok2 ev2 where a2: "install_attempt e 2 (h @ ev1) = (ok2, ev2)"
    by (cases "install_attempt e 2 (h @ ev1)")
  note o1 = install_attempt_obs [OF a1]
  note o2 = install_attempt_obs [OF a2]
  show ?thesis
  proof (cases ok1)
    case True
    with assms a1 have "ok" and t: "events_since h t = ev1"
      by (auto simp: install_git_unfold events_since_def)
    with True o1 show ?thesis
      by (auto simp: Let_def)
  next
    case False
    with assms a1 a2 have ok: "ok = ok2" and t: "events_since h t = ev1 @ ev2"
      by (auto simp: install_git_unfold events_since_def)
    obtain d1 where d1: "downloads ev1 = [d1]"
      using o1(2) by (cases "downloads ev1") auto
    obtain d2 where d2: "downloads ev2 = [d2]"
      using o2(2) by (cases "downloads ev2") auto
    have l1: "launches ev1 = [] \<or> (\<exists>r. launches ev1 = [r])"
      using o1(3) by (cases "launches ev1") auto
    have l2: "launches ev2 = [] \<or> (\<exists>r. launches ev2 = [r])"
      using o2(3) by (cases "launches ev2") auto
    have r1: "removals ev1 = [] \<or> removals ev1 = [False]"
      using o1(7,9) False by auto
    have len: "length (removals (ev1 @ ev2)) = length (filter exit_zero (launches (ev1 @ ev2)))"
      using o1(6) o2(6) by (simp add: removals_append launches_append)
    have okk: "ok \<longleftrightarrow> removals (ev1 @ ev2) \<noteq> [] \<and> last (removals (ev1 @ ev2))"
      using ok o2(7,9) r1 by (auto simp: removals_append)
    have st: "attempt_starts (ev1 @ ev2) = [1, 2]"
      using o1(1) o2(1) by (simp add: attempt_starts_append)
    have dl: "length (downloads (ev1 @ ev2)) = 2"
      by (simp add: downloads_append d1 d2)
    have redo: "hd (downloads (ev1 @ ev2)) \<and> launches (ev1 @ ev2) \<noteq> [] \<and>
                exit_zero (hd (launches (ev1 @ ev2))) \<Longrightarrow> downloads (ev1 @ ev2) ! 1 \<Longrightarrow>
                length (launches (ev1 @ ev2)) = 2"
      using d1 d2 l1 l2 o1(4) o2(4) by (auto simp: downloads_append launches_append)
    from len okk st dl redo show ?thesis
      unfolding t Let_def by blast
  qed
qed


theorem install_git_remove_failure_witness:
  "fst (install_git remove_failing_env []) = False \<and>
   downloads (events_since [] (snd (install_git remove_failing_env []))) = [True, True] \<and>
   launches (events_since [] (snd (install_git remove_failing_env []))) =
     [Exited [] 0, Exited [] 0] \<and>
   removals (events_since [] (snd (install_git remove_failing_env []))) = [False, False] \<and>
   attempt_starts (events_since [] (snd (install_git remove_failing_env []))) = [1, 2]"
  using install_git_remove_failure [OF run_remove_failing]
  by (simp add: run_remove_failing events_since_def)

text \<open>
  Claim C3, as stated, fails: the installer is not run through \<open>run_cmd\<close> and is not
  retried on its own.  Where the first download raises and the installer exits with
  status 1 the first time it runs, \<open>ensure_git\<close> runs the installer once and returns
  \<open>False\<close>; downloading with retries and then running the installer under the retry
  policy of \<open>run_cmd\<close> would run it a second time and return \<open>True\<close>.
\<close>

theorem ensure_git_run_cmd_policy_counterexample:
  "fst (ensure_git flaky_env []) = False \<and>
   downloads (snd (ensure_git flaky_env [])) = [False, True] \<and>
   launches (snd (ensure_git flaky_env [])) = [Exited [] 1] \<and>
   fst (spec_ensure_git flaky_env []) = True \<and>
   downloads (snd (spec_ensure_git flaky_env [])) = [False, True] \<and>
   launches (snd (spec_ensure_git flaky_env [])) = [Exited [] 1, Exited [] 0]"
  by (simp add: flaky_code flaky_spec)

text \<open>
  Claim C3, amended.  When Git is not on the path, \<open>ensure_git\<close> makes at most
  \<open>MAX_ATTEMPTS\<close> attempts, each of which downloads the installer to the temporary
  location once and, when the download succeeded, runs the installer once, directly,
  with \<open>/VERYSILENT /NORESTART\<close>: downloads and installer runs share one budget of
  attempts, and the installer runs exactly once for every successful download.  The
  result is \<open>True\<close> exactly when the last thing done was the successful removal of the
  temporary installer file, which follows an installer run that exited with status 0.
\<close>

theorem ensure_git_combined_attempts:
  assumes "\<not> shutil_which e h ''git''" and "ensure_git e h = (ok, t)"
  shows "(let evs = events_since h t; ds = downloads evs; ls = launches evs
          in 1 \<le> length ds \<and> length ds \<le> MAX_ATTEMPTS \<and>
             length ls = length (filter id ds) \<and>
             launched_cmds evs =
               replicate (length ls) [temp_path e, ''/VERYSILENT'', ''/NORESTART''] \<and>
             (ok \<longleftrightarrow> evs \<noteq> [] \<and> last evs = Remove (temp_path e) True) \<and>
             (ok \<longrightarrow> ls \<noteq> [] \<and> exit_zero (last ls)))"
proof -
  from assms have ig: "install_git e h = (ok, t)"
    by (simp add: ensure_git_def check_exe_def)
  obtain ok1 ev1 where a1: "install_attempt e 1 h = (ok1, ev1)"
    by (cases "install_attempt e 1 h")
  obtain ok2 ev2 where a2: "install_attempt e 2 (h @ ev1) = (ok2, ev2)"
    by (cases "install_attempt e 2 (h @ ev1)")
  have one: "\<And>a h' ok' evs. install_attempt e a h' = (ok', evs) \<Longrightarrow>
               length (downloads evs) = 1 \<and>
               length (launches evs) = length (filter id (downloads evs)) \<and>
               launched_cmds evs =
                 replicate (length (launches evs)) [temp_path e, ''/VERYSILENT'', ''/NORESTART''] \<and>
               (ok' \<longleftrightarrow> evs \<noteq> [] \<and> last evs = Remove (temp_path e) True) \<and>
               (ok' \<longrightarrow> launches evs \<noteq> [] \<and> exit_zero (last (launches evs))) \<and> evs \<noteq> []"
    by (auto simp: install_attempt_def Let_def installer_cmd_def
          split: if_splits proc_result.splits)
  note o1 = one [OF a1]
  note o2 = one [OF a2]
  show ?thesis
  proof (cases ok1)
    case True
    with ig a1 have "ok" and t: "events_since h t = ev1"
      by (auto simp: install_git_unfold events_since_def)
    with True o1 show ?thesis
      by (simp add: Let_def MAX_ATTEMPTS_def)
  next
    case False
    with ig a1 a2 have ok: "ok = ok2" and t: "events_since h t = ev1 @ ev2"
      by (auto simp: install_git_unfold events_since_def)
    from o1 o2 ok show ?thesis
      unfolding t Let_def
      by (simp add: downloads_append launches_append launched_cmds_append MAX_ATTEMPTS_def
            replicate_add)
  qed
qed


theorem ensure_git_combined_attempts_witness:
  "\<not> shutil_which flaky_env [] ''git'' \<and> fst (ensure_git flaky_env []) = False \<and>
   length (downloads (events_since [] (snd (ensure_git flaky_env [])))) = 2 \<and>
   launched_cmds (events_since [] (snd (ensure_git flaky_env []))) =
     [[''tmp/Git-64-bit.exe'', ''/VERYSILENT'', ''/NORESTART'']]"
proof -
  have g: "\<not> shutil_which flaky_env [] ''git''"
    by (simp add: flaky_env_def test_env_def)
  from ensure_git_combined_attempts [OF g flaky_code] g show ?thesis
    by (simp add: flaky_code events_since_def)
qed

section \<open>Entry-point resolution\<close>

lemma prompt_history_shift:
  "prompt_history e h (Suc n) =
     prompt_history e (h @ [Input (input_int e h), Print MsgInvalidChoice]) n"
  by (induction n) simp_all

lemma choose_file_after:
  "(\<forall>i<n. \<not> valid_choice pyfiles (input_int e (prompt_history e h i))) \<Longrightarrow>
   valid_choice pyfiles (input_int e (prompt_history e h n)) \<Longrightarrow>
   choose_file e pyfiles h =
     Some (pyfiles ! nat (the (input_int e (prompt_history e h n)) - 1),
           prompt_history e h n @ [Input (input_int e (prompt_history e h n))])"
proof (induction n arbitrary: h)
  case 0
  then show ?case by (subst choose_file.simps) simp
next
  case (Suc n)
  let ?h' = "h @ [Input (input_int e h), Print MsgInvalidChoice]"
  from Suc.prems(1) have inv0: "\<not> valid_choice pyfiles (input_int e h)"
    by (metis prompt_history.simps(1) zero_less_Suc)
  have "\<forall>i<n. \<not> valid_choice pyfiles (input_int e (prompt_history e ?h' i))"
  proof (intro allI impI)
    fix i assume "i < n"
    then have "Suc i < Suc n" by simp
    with Suc.prems(1) have "\<not> valid_choice pyfiles (input_int e (prompt_history e h (Suc i)))"
      by blast
    then show "\<not> valid_choice pyfiles (input_int e (prompt_history e ?h' i))"
      by (simp add: prompt_history_shift del: prompt_history.simps)
  qed
  moreover from Suc.prems(2)
  have "valid_choice pyfiles (input_int e (prompt_history e ?h' n))"
    by (simp add: prompt_history_shift del: prompt_history.simps)
  ultimately have "choose_file e pyfiles ?h' =
     Some (pyfiles ! nat (the (input_int e (prompt_history e ?h' n)) - 1),
           prompt_history e ?h' n @ [Input (input_int e (prompt_history e ?h' n))])"
    by (rule Suc.IH)
  then have "choose_file e pyfiles ?h' =
     Some (pyfiles ! nat (the (input_int e (prompt_history e h (Suc n))) - 1),
           prompt_history e h (Suc n) @ [Input (input_int e (prompt_history e h (Suc n)))])"
    by (simp add: prompt_history_shift del: prompt_history.simps)
  moreover have "choose_file e pyfiles h = choose_file e pyfiles ?h'"
    using inv0 by (subst choose_file.simps) simp
  ultimately show ?case by simp
qed


lemma choose_file_Some_valid:
  assumes "choose_file e pyfiles h = Some r"
  shows "\<exists>n. valid_choice pyfiles (input_int e (prompt_history e h n))"
proof (rule choose_file.raw_induct
         [where P = "\<lambda>e pyfiles h r. \<exists>n. valid_choice pyfiles (input_int e (prompt_history e h n))",
          OF _ assms])
  fix cf :: "env \<Rightarrow> string list \<Rightarrow> event list \<Rightarrow> (string \<times> event list) option"
  fix e pyfiles h r
  assume IH: "\<And>e pyfiles h r. cf e pyfiles h = Some r \<Longrightarrow>
                \<exists>n. valid_choice pyfiles (input_int e (prompt_history e h n))"
  assume body:
    "(if valid_choice pyfiles (input_int e h)
      then Some (pyfiles ! nat (the (input_int e h) - 1), h @ [Input (input_int e h)])
      else cf e pyfiles (h @ [Input (input_int e h), Print MsgInvalidChoice])) = Some r"
  show "\<exists>n. valid_choice pyfiles (input_int e (prompt_history e h n))"
  proof (cases "valid_choice pyfiles (input_int e h)")
    case True
    then have "valid_choice pyfiles (input_int e (prompt_history e h 0))" by simp
    then show ?thesis ..
  next
    case False
    with body have "cf e pyfiles (h @ [Input (input_int e h), Print MsgInvalidChoice]) = Some r"
      by simp
    then have "\<exists>n. valid_choice pyfiles
         (input_int e (prompt_history e (h @ [Input (input_int e h), Print MsgInvalidChoice]) n))"
      by (rule IH)
    then obtain n where
      "valid_choice pyfiles
         (input_int e (prompt_history e (h @ [Input (input_int e h), Print MsgInvalidChoice]) n))"
      ..
    then have "valid_choice pyfiles (input_int e (prompt_history e h (Suc n)))"
      by (simp add: prompt_history_shift del: prompt_history.simps)
    then show ?thesis ..
  qed
qed

lemma choose_file_never:
  "(\<forall>n. \<not> valid_choice pyfiles (input_int e (prompt_history e h n))) \<Longrightarrow>
   choose_file e pyfiles h = None"
  using choose_file_Some_valid [of e pyfiles h] by (cases "choose_file e pyfiles h") auto

text \<open>
  Claim C4.  \<open>find_python_entrypoint\<close> returns \<open>main.py\<close> if it exists, else \<open>app.py\<close> if
  it exists, else \<open>index.py\<close> if it exists.  When none of the three exists it looks at the
  top-level Python files: a single one is returned with nothing printed and nothing
  asked; with none, no entry file is returned, and the run step of a Python project then
  reports an error and launches nothing; with several, the files are listed and the user
  is asked until a reply is a number between 1 and the number of files, every other reply
  being answered by the message of line 160 and a new prompt, and the file with the
  chosen number is returned.  If no reply is ever valid the function never returns.
\<close>

theorem find_python_entrypoint_resolution:
  "(let isf = (\<lambda>f. os_path_isfile e h (os_path_join e dir f));
        none = (\<not> isf ''main.py'' \<and> \<not> isf ''app.py'' \<and> \<not> isf ''index.py'');
        pyfiles = glob_py e h dir;
        h0 = list_candidates pyfiles h;
        reply = (\<lambda>n. input_int e (prompt_history e h0 n))
    in (isf ''main.py'' \<longrightarrow> find_python_entrypoint e dir h = Some (Some ''main.py'', h)) \<and>
       (\<not> isf ''main.py'' \<and> isf ''app.py'' \<longrightarrow>
          find_python_entrypoint e dir h = Some (Some ''app.py'', h)) \<and>
       (\<not> isf ''main.py'' \<and> \<not> isf ''app.py'' \<and> isf ''index.py'' \<longrightarrow>
          find_python_entrypoint e dir h = Some (Some ''index.py'', h)) \<and>
       (none \<and> length pyfiles = 1 \<longrightarrow>
          find_python_entrypoint e dir h = Some (Some (hd pyfiles), h)) \<and>
       (none \<and> pyfiles = [] \<longrightarrow>
          find_python_entrypoint e dir h = Some (None, h) \<and>
          (os_path_isfile e h (os_path_join e dir ''requirements.txt'') \<longrightarrow>
             run_step e dir h = Some (log_error MsgNoEntry h))) \<and>
       (none \<and> length pyfiles > 1 \<longrightarrow>
          (\<forall>n. (\<forall>i<n. \<not> valid_choice pyfiles (reply i)) \<and> valid_choice pyfiles (reply n) \<longrightarrow>
             find_python_entrypoint e dir h =
               Some (Some (pyfiles ! nat (the (reply n) - 1)),
                     prompt_history e h0 n @ [Input (reply n)])) \<and>
          ((\<forall>n. \<not> valid_choice pyfiles (reply n)) \<longrightarrow>
             find_python_entrypoint e dir h = None)))"
proof -
  let ?isf = "\<lambda>f. os_path_isfile e h (os_path_join e dir f)"
  let ?none = "\<not> ?isf ''main.py'' \<and> \<not> ?isf ''app.py'' \<and> \<not> ?isf ''index.py''"
  let ?pyfiles = "glob_py e h dir"
  let ?h0 = "list_candidates ?pyfiles h"
  let ?reply = "\<lambda>n. input_int e (prompt_history e ?h0 n)"
  have none: "?none \<Longrightarrow> first_candidate e h dir [''main.py'', ''app.py'', ''index.py''] = None"
    by simp
  have a: "?isf ''main.py'' \<Longrightarrow> find_python_entrypoint e dir h = Some (Some ''main.py'', h)"
    by (simp add: find_python_entrypoint_def)
  have b: "\<not> ?isf ''main.py'' \<and> ?isf ''app.py'' \<Longrightarrow>
           find_python_entrypoint e dir h = Some (Some ''app.py'', h)"
    by (simp add: find_python_entrypoint_def)
  have c: "\<not> ?isf ''main.py'' \<and> \<not> ?isf ''app.py'' \<and> ?isf ''index.py'' \<Longrightarrow>
           find_python_entrypoint e dir h = Some (Some ''index.py'', h)"
    by (simp add: find_python_entrypoint_def)
  have d: "?none \<and> length ?pyfiles = 1 \<Longrightarrow>
           find_python_entrypoint e dir h = Some (Some (hd ?pyfiles), h)"
    by (cases ?pyfiles) (simp_all add: find_python_entrypoint_def)
  have z: "?none \<and> ?pyfiles = [] \<Longrightarrow> find_python_entrypoint e dir h = Some (None, h)"
    by (simp add: find_python_entrypoint_def)
  have z': "?none \<and> ?pyfiles = [] \<Longrightarrow>
            os_path_isfile e h (os_path_join e dir ''requirements.txt'') \<Longrightarrow>
            run_step e dir h = Some (log_error MsgNoEntry h)"
    using z by (simp add: run_step_def)
  have m: "?none \<and> length ?pyfiles > 1 \<Longrightarrow>
           find_python_entrypoint e dir h =
             (case choose_file e ?pyfiles ?h0 of None \<Rightarrow> None
              | Some (f, h') \<Rightarrow> Some (Some f, h'))"
    by (simp add: find_python_entrypoint_def Let_def)
  have i: "?none \<and> length ?pyfiles > 1 \<Longrightarrow>
           (\<forall>i<n. \<not> valid_choice ?pyfiles (?reply i)) \<and> valid_choice ?pyfiles (?reply n) \<Longrightarrow>
           find_python_entrypoint e dir h =
             Some (Some (?pyfiles ! nat (the (?reply n) - 1)),
                   prompt_history e ?h0 n @ [Input (?reply n)])" for n
    using choose_file_after [of n ?pyfiles e ?h0] by (simp add: m)
  have nv: "?none \<and> length ?pyfiles > 1 \<Longrightarrow> (\<forall>n. \<not> valid_choice ?pyfiles (?reply n)) \<Longrightarrow>
            find_python_entrypoint e dir h = None"
    using choose_file_never [of ?pyfiles e ?h0] by (simp add: m)
  from a b c d z z' i nv show ?thesis
    unfolding Let_def by blast
qed


theorem find_python_entrypoint_resolution_witness:
  "find_python_entrypoint three_files_env ''proj'' [] =
     Some (Some ''b.py'',
           [Print MsgAmbiguous, Print (MsgCandidate 1 ''a.py''), Print (MsgCandidate 2 ''b.py''),
            Print (MsgCandidate 3 ''c.py''), Input (Some 7), Print MsgInvalidChoice,
            Input None, Print MsgInvalidChoice, Input (Some 2)]) \<and>
   find_python_entrypoint single_file_env ''proj'' [] = Some (Some ''tool.py'', [])"
proof -
  let ?e = three_files_env
  let ?py = "[''a.py'', ''b.py'', ''c.py'']"
  let ?h0 = "[Print MsgAmbiguous, Print (MsgCandidate 1 ''a.py''),
              Print (MsgCandidate 2 ''b.py''), Print (MsgCandidate 3 ''c.py'')]"
  have g: "glob_py ?e [] ''proj'' = ?py"
    by (simp add: three_files_env_def test_env_def)
  have h0: "list_candidates ?py [] = ?h0"
    by (simp add: list_candidates_def enumerate_eq_zip upt_rec)
  have none: "\<not> os_path_isfile ?e [] (os_path_join ?e ''proj'' ''main.py'') \<and>
              \<not> os_path_isfile ?e [] (os_path_join ?e ''proj'' ''app.py'') \<and>
              \<not> os_path_isfile ?e [] (os_path_join ?e ''proj'' ''index.py'')"
    by (simp add: three_files_env_def test_env_def)
  have p0: "prompt_history ?e ?h0 0 = ?h0" by simp
  have r0: "input_int ?e ?h0 = Some 7"
    by (simp add: three_files_env_def test_env_def)
  have p1: "prompt_history ?e ?h0 1 = ?h0 @ [Input (Some 7), Print MsgInvalidChoice]"
    using r0 by simp
  have r1: "input_int ?e (?h0 @ [Input (Some 7), Print MsgInvalidChoice]) = None"
    by (simp add: three_files_env_def test_env_def)
  have p2: "prompt_history ?e ?h0 2 =
              ?h0 @ [Input (Some 7), Print MsgInvalidChoice, Input None, Print MsgInvalidChoice]"
    using r0 r1 by (simp add: numeral_2_eq_2)
  have r2': "input_int ?e (?h0 @ [Input (Some 7), Print MsgInvalidChoice, Input None,
                                   Print MsgInvalidChoice]) = Some 2"
    by (simp add: three_files_env_def test_env_def)
  have r2: "input_int ?e (prompt_history ?e ?h0 2) = Some 2"
    unfolding p2 by (rule r2')
  have inv: "\<forall>i<2. \<not> valid_choice ?py (input_int ?e (prompt_history ?e ?h0 i))"
  proof (intro allI impI)
    fix i :: nat assume "i < 2"
    then have "i = 0 \<or> i = 1" by auto
    then show "\<not> valid_choice ?py (input_int ?e (prompt_history ?e ?h0 i))"
      using r0 r1 p1 by (auto simp: valid_choice_def)
  qed
  have val: "valid_choice ?py (input_int ?e (prompt_history ?e ?h0 2))"
    unfolding r2 by (simp add: valid_choice_def)
  from find_python_entrypoint_resolution [of ?e "[]" "''proj''", unfolded Let_def g h0]
  have "(\<forall>i<2. \<not> valid_choice ?py (input_int ?e (prompt_history ?e ?h0 i))) \<and>
        valid_choice ?py (input_int ?e (prompt_history ?e ?h0 2)) \<longrightarrow>
        find_python_entrypoint ?e ''proj'' [] =
          Some (Some (?py ! nat (the (input_int ?e (prompt_history ?e ?h0 2)) - 1)),
                prompt_history ?e ?h0 2 @ [Input (input_int ?e (prompt_history ?e ?h0 2))])"
    using none by simp
  with inv val have
    "find_python_entrypoint ?e ''proj'' [] =
       Some (Some (?py ! nat (the (input_int ?e (prompt_history ?e ?h0 2)) - 1)),
             prompt_history ?e ?h0 2 @ [Input (input_int ?e (prompt_history ?e ?h0 2))])"
    by blast
  then have one: "find_python_entrypoint ?e ''proj'' [] =
      Some (Some ''b.py'', ?h0 @ [Input (Some 7), Print MsgInvalidChoice, Input None,
                                  Print MsgInvalidChoice, Input (Some 2)])"
    unfolding p2 r2' by simp
  have two: "find_python_entrypoint single_file_env ''proj'' [] = Some (Some ''tool.py'', [])"
    using find_python_entrypoint_resolution [of single_file_env "[]" "''proj''", unfolded Let_def]
    by (simp add: single_file_env_def test_env_def)
  from one two show ?thesis by simp
qed

section \<open>The events of each step of the workflow\<close>

lemma messages_append: "messages (a @ b) = messages a @ messages b"
  by (induction a rule: messages.induct) simp_all

lemma messages_log_lines:
  "messages (map (\<lambda>l. Log (MsgOutputLine l)) out) = map MsgOutputLine out"
  by (induction out) simp_all

lemma footprint_Nil [simp]: "footprint L cmds []"
  by (simp add: footprint_def)

lemma footprint_append:
  "footprint L cmds (a @ b) \<longleftrightarrow> footprint L cmds a \<and> footprint L cmds b"
  by (auto simp: footprint_def messages_append launched_cmds_append)

lemma footprint_mono:
  "footprint L cmds evs \<Longrightarrow> L \<subseteq> L' \<Longrightarrow> cmds \<subseteq> cmds' \<Longrightarrow> footprint L' cmds' evs"
  by (fastforce simp: footprint_def)

lemma footprint_msg [simp]:
  "footprint L cmds (Log m # evs) \<longleftrightarrow> line_of m \<in> L \<and> footprint L cmds evs"
  "footprint L cmds (LogError m # evs) \<longleftrightarrow> line_of m \<in> L \<and> footprint L cmds evs"
  "footprint L cmds (Print m # evs) \<longleftrightarrow> line_of m \<in> L \<and> footprint L cmds evs"
  by (auto simp: footprint_def)

lemma footprint_other [simp]:
  "footprint L cmds (Spawn cmd cwd sh r # evs) \<longleftrightarrow> cmd \<in> cmds \<and> footprint L cmds evs"
  "footprint L cmds (UrlRetrieve p ok # evs) \<longleftrightarrow> footprint L cmds evs"
  "footprint L cmds (Remove p ok # evs) \<longleftrightarrow> footprint L cmds evs"
  "footprint L cmds (MakeDirs p ok # evs) \<longleftrightarrow> footprint L cmds evs"
  "footprint L cmds (RmTree p ok # evs) \<longleftrightarrow> footprint L cmds evs"
  "footprint L cmds (Input reply # evs) \<longleftrightarrow> footprint L cmds evs"
  by (auto simp: footprint_def)

lemma footprint_log_lines [simp]:
  "115 \<in> L \<Longrightarrow> footprint L cmds (map (\<lambda>l. Log (MsgOutputLine l)) out)"
  by (auto simp: footprint_def messages_log_lines launched_cmds_log_lines)

lemma footprint_attempt_events:
  "footprint {110..128} {cmd} (attempt_events cmd cwd sh r)"
  by (cases r) (auto simp: attempt_events_def footprint_append)

lemma footprint_progress:
  "footprint L cmds evs \<Longrightarrow> 169 \<notin> L \<Longrightarrow> progress_shown evs = []"
proof (induction evs rule: progress_shown.induct)
  case 1
  then show ?case by simp
next
  case (2 k t)
  then show ?case by auto
qed (auto simp: footprint_def)

lemma footprint_no_msg:
  "footprint L cmds evs \<Longrightarrow> line_of m \<notin> L \<Longrightarrow>
   Log m \<notin> set evs \<and> LogError m \<notin> set evs \<and> Print m \<notin> set evs"
  by (induction evs rule: messages.induct) (auto simp: footprint_def)

lemma run_cmd_shape:
  obtains r1 where "exit_zero r1"
      and "run_cmd e cmd cwd sh h = (0, h @ Log (MsgRunning cmd) # attempt_events cmd cwd sh r1)"
  | r1 r2 mid where "\<not> exit_zero r1" and "mid = [] \<or> mid = [Log (MsgRetry 2)]"
      and "run_cmd e cmd cwd sh h =
             (case r2 of Exited out rc \<Rightarrow> rc | Raised out \<Rightarrow> - 1,
              h @ Log (MsgRunning cmd) # attempt_events cmd cwd sh r1 @ mid @
                  attempt_events cmd cwd sh r2)"
proof -
  define r1 where "r1 = subprocess e (h @ [Log (MsgRunning cmd)]) cmd cwd sh"
  define mid where "mid = (if raised r1 then [] else [Log (MsgRetry 2)])"
  define r2 where
    "r2 = subprocess e (h @ Log (MsgRunning cmd) # attempt_events cmd cwd sh r1 @ mid) cmd cwd sh"
  have eq: "run_cmd e cmd cwd sh h =
              (if exit_zero r1 then (0, h @ Log (MsgRunning cmd) # attempt_events cmd cwd sh r1)
               else (case r2 of Exited out rc \<Rightarrow> rc | Raised out \<Rightarrow> - 1,
                     h @ Log (MsgRunning cmd) # attempt_events cmd cwd sh r1 @ mid @
                         attempt_events cmd cwd sh r2))"
    unfolding run_cmd_unfold Let_def r1_def r2_def mid_def by simp
  have m: "mid = [] \<or> mid = [Log (MsgRetry 2)]" by (simp add: mid_def)
  show thesis
  proof (cases "exit_zero r1")
    case True
    with eq that(1) [of r1] show thesis by simp
  next
    case False
    with eq m that(2) [of r1 mid r2] show thesis by simp
  qed
qed

lemma attempt_events_zero:
  "exit_zero r \<Longrightarrow> \<exists>out. Spawn cmd cwd sh (Exited out 0) \<in> set (attempt_events cmd cwd sh r)"
  by (cases r) (auto simp: attempt_events_def)

lemma run_cmd_footprint:
  assumes "run_cmd e cmd cwd sh h = (rc, t)"
  shows "\<exists>evs. t = h @ evs \<and> evs \<noteq> [] \<and> footprint {110..128} {cmd} evs \<and>
           (rc = 0 \<longrightarrow> (\<exists>out. Spawn cmd cwd sh (Exited out 0) \<in> set evs))"
proof (cases rule: run_cmd_shape [of e cmd cwd sh h])
  case (1 r1)
  with assms attempt_events_zero [of r1 cmd cwd sh] show ?thesis
    by (auto simp: footprint_attempt_events)
next
  case (2 r1 r2 mid)
  have z: "rc = 0 \<Longrightarrow> exit_zero r2"
    using assms 2(3) by (cases r2) auto
  from assms 2 have t: "t = h @ Log (MsgRunning cmd) # attempt_events cmd cwd sh r1 @ mid @
                               attempt_events cmd cwd sh r2"
    by simp
  have "footprint {110..128} {cmd} (Log (MsgRunning cmd) # attempt_events cmd cwd sh r1 @ mid @
                               attempt_events cmd cwd sh r2)"
    using 2(2) by (auto simp: footprint_append footprint_attempt_events)
  moreover have "rc = 0 \<Longrightarrow> \<exists>out. Spawn cmd cwd sh (Exited out 0) \<in>
      set (Log (MsgRunning cmd) # attempt_events cmd cwd sh r1 @ mid @ attempt_events cmd cwd sh r2)"
    using attempt_events_zero [OF z, of cmd cwd sh] by auto
  ultimately show ?thesis using t by blast
qed

lemma install_attempt_footprint:
  assumes "install_attempt e a h = (ok, evs)"
  shows "evs \<noteq> [] \<and> footprint {54..75} {installer_cmd e} evs \<and>
         (ok \<longrightarrow> Remove (temp_path e) True \<in> set evs) \<and>
         (\<not> ok \<longrightarrow> (\<exists>m. last evs = LogError m))"
  using assms
  by (auto simp: install_attempt_def Let_def split: if_splits proc_result.splits)

lemma ensure_git_footprint:
  assumes "ensure_git e h = (ok, t)"
  shows "\<exists>evs. t = h @ evs \<and> footprint {54..86} {installer_cmd e} evs \<and>
           (ok \<longrightarrow> Log MsgGitPresent \<in> set evs \<or> Remove (temp_path e) True \<in> set evs)"
proof (cases "check_exe e ''git'' h")
  case True
  with assms show ?thesis by (auto simp: ensure_git_def log_def)
next
  case False
  with assms have ig: "install_git e h = (ok, t)" by (simp add: ensure_git_def)
  obtain ok1 ev1 where a1: "install_attempt e 1 h = (ok1, ev1)"
    by (cases "install_attempt e 1 h")
  obtain ok2 ev2 where a2: "install_attempt e 2 (h @ ev1) = (ok2, ev2)"
    by (cases "install_attempt e 2 (h @ ev1)")
  note f1 = install_attempt_footprint [OF a1]
  note f2 = install_attempt_footprint [OF a2]
  have sub: "footprint {54..75} {installer_cmd e} evs \<Longrightarrow> footprint {54..86} {installer_cmd e} evs"
    for evs by (erule footprint_mono) auto
  show ?thesis
  proof (cases ok1)
    case True
    with ig a1 have "ok" and "t = h @ ev1" by (auto simp: install_git_unfold)
    with True f1 sub show ?thesis by auto
  next
    case False
    with ig a1 a2 have "ok = ok2" and "t = h @ ev1 @ ev2" by (auto simp: install_git_unfold)
    with f1 f2 sub show ?thesis by (auto simp: footprint_append)
  qed
qed

lemma clone_step_footprint:
  assumes "clone_step e repo_url h = (res, t)"
  shows "\<exists>evs. t = h @ evs \<and> evs \<noteq> [] \<and>
           footprint ({110..128} \<union> {191..203}) {clone_cmd repo_url} evs \<and>
           (case res of
              None \<Rightarrow> last evs = LogError MsgCannotRemove \<or> last evs = LogError MsgCloneFailed
            | Some d \<Rightarrow> d = target_of e repo_url \<and>
                (\<exists>out. Spawn (clone_cmd repo_url) (Some WORKDIR) False (Exited out 0) \<in> set evs))"
proof -
  let ?d = "target_of e repo_url"
  define pre where "pre = (if os_path_exists e h ?d
     then [Log (MsgRemovingOld ?d), RmTree ?d (shutil_rmtree e (h @ [Log (MsgRemovingOld ?d)]) ?d)]
     else [])"
  define removed where "removed \<longleftrightarrow> (os_path_exists e h ?d \<longrightarrow> shutil_rmtree e (h @ [Log (MsgRemovingOld ?d)]) ?d)"
  have fp: "footprint ({110..128} \<union> {191..203}) {clone_cmd repo_url} pre"
    by (simp add: pre_def)
  show ?thesis
  proof (cases removed)
    case False
    with assms have "res = None" and "t = h @ pre @ [LogError MsgCannotRemove]"
      by (auto simp: clone_step_def target_of_def Let_def pre_def removed_def log_def
            log_error_def split: if_splits)
    with fp show ?thesis by (auto simp: footprint_append)
  next
    case True
    obtain rc t2 where rc: "run_cmd e (clone_cmd repo_url) (Some WORKDIR) False (h @ pre @ [Log MsgCloning]) = (rc, t2)"
      by (cases "run_cmd e (clone_cmd repo_url) (Some WORKDIR) False (h @ pre @ [Log MsgCloning])")
    from run_cmd_footprint [OF rc] obtain evs where
      t2: "t2 = (h @ pre @ [Log MsgCloning]) @ evs" and ne: "evs \<noteq> []"
      and f: "footprint {110..128} {clone_cmd repo_url} evs"
      and z: "rc = 0 \<longrightarrow> (\<exists>out. Spawn (clone_cmd repo_url) (Some WORKDIR) False (Exited out 0) \<in> set evs)"
      by blast
    have f': "footprint ({110..128} \<union> {191..203}) {clone_cmd repo_url} evs"
      using f by (rule footprint_mono) auto
    from True assms rc have r: "res = (if rc \<noteq> 0 then None else Some ?d)"
      and t: "t = t2 @ [if rc \<noteq> 0 then LogError MsgCloneFailed else Log (MsgCloned ?d)]"
      by (auto simp: clone_step_def target_of_def clone_cmd_def Let_def pre_def removed_def
            log_def log_error_def split: if_splits)
    show ?thesis
    proof (cases "rc = 0")
      case True
      with r t t2 fp f' z show ?thesis by (auto simp: footprint_append)
    next
      case False
      with r t t2 fp f' show ?thesis by (auto simp: footprint_append)
    qed
  qed
qed

lemma install_step_footprint:
  assumes "install_step e d h = (ok, t)"
  shows "\<exists>evs. t = h @ evs \<and> evs \<noteq> [] \<and>
           footprint ({93..128} \<union> {211..229}) {pip_cmd e, [''npm'', ''install'']} evs \<and>
           (if ok then \<exists>cmd out. cmd \<in> {pip_cmd e, [''npm'', ''install'']} \<and>
                         Spawn cmd (Some d) False (Exited out 0) \<in> set evs
            else \<exists>m. last evs = LogError m \<and> install_abort m)"
proof -
  let ?L = "{93..128} \<union> {211..229}"
  let ?C = "{pip_cmd e, [''npm'', ''install'']}"
  have branch:
    "\<exists>evs. t' = h0 @ evs \<and> evs \<noteq> [] \<and> footprint ?L ?C evs \<and>
        (if ok' then \<exists>out. Spawn cmd (Some d) False (Exited out 0) \<in> set evs
         else last evs = LogError fail)"
    if run: "run_cmd e cmd (Some d) False h0 = (rc, t2)"
      and res: "(ok', t') = (if rc \<noteq> 0 then (False, t2 @ [LogError fail]) else (True, t2))"
      and c: "cmd \<in> ?C" and l: "line_of fail \<in> ?L"
    for t' h0 ok' cmd rc t2 fail
  proof -
    from run_cmd_footprint [OF run] obtain evs where
      t2: "t2 = h0 @ evs" and ne: "evs \<noteq> []" and f: "footprint {110..128} {cmd} evs"
      and z: "rc = 0 \<longrightarrow> (\<exists>out. Spawn cmd (Some d) False (Exited out 0) \<in> set evs)"
      by blast
    have f': "footprint ?L ?C evs" using c by (intro footprint_mono [OF f]) auto
    show ?thesis
    proof (cases "rc = 0")
      case True
      with res t2 ne f' z show ?thesis by auto
    next
      case False
      with res t2 ne f' l show ?thesis by (auto simp: footprint_append)
    qed
  qed
  let ?req = "os_path_isfile e h (os_path_join e d ''requirements.txt'')"
  let ?pkg = "os_path_isfile e h (os_path_join e d ''package.json'')"
  consider (py) "?req" | (node) "\<not> ?req" "?pkg" | (neither) "\<not> ?req" "\<not> ?pkg" by blast
  then show ?thesis
  proof cases
    case py
    show ?thesis
    proof (cases "check_exe e ''python'' (h @ [Log MsgDetectedPython])")
      case False
      with py assms have "\<not> ok" and "t = h @ [Log MsgDetectedPython, LogError MsgPythonMissing]"
        by (auto simp: install_step_def ensure_python_def Let_def log_def log_error_def)
      then show ?thesis by (simp add: install_abort_def)
    next
      case True
      let ?h0 = "h @ [Log MsgDetectedPython, Log MsgPythonPresent, Log MsgPipInstall]"
      obtain rc t2 where run: "run_cmd e (pip_cmd e) (Some d) False ?h0 = (rc, t2)"
        by (cases "run_cmd e (pip_cmd e) (Some d) False ?h0")
      with py True assms have
        res: "(ok, t) = (if rc \<noteq> 0 then (False, t2 @ [LogError MsgPipFailed]) else (True, t2))"
        by (auto simp: install_step_def ensure_python_def pip_cmd_def Let_def log_def
              log_error_def)
      from branch [OF run res] obtain evs where
        "t = ?h0 @ evs" "evs \<noteq> []" "footprint ?L ?C evs"
        "if ok then \<exists>out. Spawn (pip_cmd e) (Some d) False (Exited out 0) \<in> set evs
         else last evs = LogError MsgPipFailed"
        by auto
      then show ?thesis
        by (intro exI [of _ "[Log MsgDetectedPython, Log MsgPythonPresent, Log MsgPipInstall] @ evs"])
          (auto simp: footprint_append install_abort_def split: if_splits)
    qed
  next
    case node
    show ?thesis
    proof (cases "check_exe e ''npm'' (h @ [Log MsgDetectedNode])")
      case False
      with node assms have "\<not> ok" and "t = h @ [Log MsgDetectedNode, LogError MsgNpmMissing]"
        by (auto simp: install_step_def ensure_npm_def Let_def log_def log_error_def)
      then show ?thesis by (simp add: install_abort_def)
    next
      case True
      let ?h0 = "h @ [Log MsgDetectedNode, Log MsgNpmPresent, Log MsgNpmInstall]"
      obtain rc t2 where run: "run_cmd e [''npm'', ''install''] (Some d) False ?h0 = (rc, t2)"
        by (cases "run_cmd e [''npm'', ''install''] (Some d) False ?h0")
      with node True assms have
        res: "(ok, t) = (if rc \<noteq> 0 then (False, t2 @ [LogError MsgNpmFailed]) else (True, t2))"
        by (auto simp: install_step_def ensure_npm_def Let_def log_def log_error_def)
      from branch [OF run res] obtain evs where
        "t = ?h0 @ evs" "evs \<noteq> []" "footprint ?L ?C evs"
        "if ok then \<exists>out. Spawn [''npm'', ''install''] (Some d) False (Exited out 0) \<in> set evs
         else last evs = LogError MsgNpmFailed"
        by auto
      then show ?thesis
        by (intro exI [of _ "[Log MsgDetectedNode, Log MsgNpmPresent, Log MsgNpmInstall] @ evs"])
          (auto simp: footprint_append install_abort_def split: if_splits)
    qed
  next
    case neither
    with assms have "\<not> ok" and "t = h @ [LogError MsgNoTechnology]"
      by (auto simp: install_step_def Let_def log_error_def)
    then show ?thesis by (simp add: install_abort_def)
  qed
qed

lemma choose_file_footprint:
  assumes "choose_file e pyfiles h = Some r"
  shows "\<exists>evs. snd r = h @ evs \<and> footprint {160} {} evs"
proof (rule choose_file.raw_induct
         [where P = "\<lambda>e pyfiles h r. \<exists>evs. snd r = h @ evs \<and> footprint {160} {} evs",
          OF _ assms])
  fix cf :: "env \<Rightarrow> string list \<Rightarrow> event list \<Rightarrow> (string \<times> event list) option"
  fix e pyfiles h r
  assume IH: "\<And>e pyfiles h r. cf e pyfiles h = Some r \<Longrightarrow>
                \<exists>evs. snd r = h @ evs \<and> footprint {160} {} evs"
  assume body:
    "(if valid_choice pyfiles (input_int e h)
      then Some (pyfiles ! nat (the (input_int e h) - 1), h @ [Input (input_int e h)])
      else cf e pyfiles (h @ [Input (input_int e h), Print MsgInvalidChoice])) = Some r"
  show "\<exists>evs. snd r = h @ evs \<and> footprint {160} {} evs"
  proof (cases "valid_choice pyfiles (input_int e h)")
    case True
    with body have "snd r = h @ [Input (input_int e h)]" by auto
    then show ?thesis by simp
  next
    case False
    with body have "cf e pyfiles (h @ [Input (input_int e h), Print MsgInvalidChoice]) = Some r"
      by simp
    then have "\<exists>evs. snd r = (h @ [Input (input_int e h), Print MsgInvalidChoice]) @ evs \<and>
                 footprint {160} {} evs"
      by (rule IH)
    then obtain evs where
      "snd r = h @ ([Input (input_int e h), Print MsgInvalidChoice] @ evs)"
      and "footprint {160} {} evs"
      by auto
    then show ?thesis by (intro exI [of _ "[Input (input_int e h), Print MsgInvalidChoice] @ evs"]) simp
  qed
qed

lemma footprint_list_candidates:
  "footprint {150..160} {} (Print MsgAmbiguous #
      map (\<lambda>(idx, f). Print (MsgCandidate (idx + 1) f)) (enumerate n pyfiles))"
proof -
  have "footprint {150..160} {} (map (\<lambda>(idx, f). Print (MsgCandidate (idx + 1) f)) (enumerate n pyfiles))"
    by (induction pyfiles arbitrary: n) simp_all
  then show ?thesis by simp
qed

lemma find_python_entrypoint_footprint:
  assumes "find_python_entrypoint e d h = Some (entry, t)"
  shows "\<exists>evs. t = h @ evs \<and> footprint {150..160} {} evs"
proof (cases "first_candidate e h d [''main.py'', ''app.py'', ''index.py'']")
  case (Some f)
  with assms show ?thesis by (simp add: find_python_entrypoint_def)
next
  case None
  let ?py = "glob_py e h d"
  show ?thesis
  proof (cases "length ?py > 1")
    case False
    with None assms show ?thesis
      by (auto simp: find_python_entrypoint_def Let_def split: if_splits)
  next
    case True
    with None assms obtain f where
      cf: "choose_file e ?py (list_candidates ?py h) = Some (f, t)"
      by (auto simp: find_python_entrypoint_def Let_def split: option.splits)
    from choose_file_footprint [OF cf] obtain evs where
      "t = list_candidates ?py h @ evs" and f: "footprint {160} {} evs"
      by auto
    moreover have "footprint {150..160} {} evs"
      using f by (rule footprint_mono) auto
    ultimately show ?thesis
      using footprint_list_candidates [of 0 ?py]
      by (auto simp: list_candidates_def footprint_append)
  qed
qed

lemma run_step_footprint:
  assumes "run_step e d h = Some t"
  shows "\<exists>evs. t = h @ evs \<and> footprint ({110..160} \<union> {239..245}) UNIV evs"
proof -
  let ?L = "{110..160} \<union> {239..245}"
  have run: "\<exists>evs. snd (run_cmd e cmd cwd sh h0) = h0 @ evs \<and> footprint ?L UNIV evs"
    for cmd cwd sh h0
  proof -
    obtain rc t2 where r: "run_cmd e cmd cwd sh h0 = (rc, t2)"
      by (cases "run_cmd e cmd cwd sh h0")
    from run_cmd_footprint [OF r] obtain evs where
      "t2 = h0 @ evs" and f: "footprint {110..128} {cmd} evs"
      by blast
    moreover have "footprint ?L UNIV evs" using f by (rule footprint_mono) auto
    ultimately show ?thesis using r by simp
  qed
  let ?req = "os_path_isfile e h (os_path_join e d ''requirements.txt'')"
  let ?pkg = "os_path_isfile e h (os_path_join e d ''package.json'')"
  consider (py) "?req" | (node) "\<not> ?req" "?pkg" | (neither) "\<not> ?req" "\<not> ?pkg" by blast
  then show ?thesis
  proof cases
    case py
    with assms obtain entry h1 where
      fe: "find_python_entrypoint e d h = Some (entry, h1)"
      by (auto simp: run_step_def Let_def split: option.splits)
    from find_python_entrypoint_footprint [OF fe] obtain ev1 where
      h1: "h1 = h @ ev1" and f1: "footprint {150..160} {} ev1"
      by blast
    have f1': "footprint ?L UNIV ev1" using f1 by (rule footprint_mono) auto
    show ?thesis
    proof (cases "entry \<noteq> None \<and> entry \<noteq> Some []")
      case False
      with py fe assms have "t = h1 @ [LogError MsgNoEntry]"
        by (auto simp: run_step_def Let_def log_error_def)
      with h1 f1' show ?thesis by (auto simp: footprint_append)
    next
      case True
      let ?h0 = "h1 @ [Log (MsgLaunching (the entry))]"
      from True py fe assms have
        "t = snd (run_cmd e [sys_executable e, the entry] (Some d) False ?h0)"
        by (auto simp: run_step_def Let_def log_def)
      with run [of "[sys_executable e, the entry]" "Some d" False ?h0] obtain evs where
        "t = ?h0 @ evs" "footprint ?L UNIV evs"
        by auto
      with h1 f1' show ?thesis
        by (intro exI [of _ "ev1 @ [Log (MsgLaunching (the entry))] @ evs"])
          (auto simp: footprint_append)
    qed
  next
    case node
    let ?h0 = "h @ [Log MsgNpmStart]"
    from node assms have "t = snd (run_cmd e [''npm'', ''start''] (Some d) True ?h0)"
      by (auto simp: run_step_def Let_def log_def)
    with run [of "[''npm'', ''start'']" "Some d" True ?h0] obtain evs where
      "t = ?h0 @ evs" "footprint ?L UNIV evs"
      by auto
    then show ?thesis
      by (intro exI [of _ "[Log MsgNpmStart] @ evs"]) (auto simp: footprint_append)
  next
    case neither
    with assms have "t = h" by (auto simp: run_step_def Let_def)
    then show ?thesis by simp
  qed
qed

lemma do_workflow_cases:
  fixes e :: env and repo_url :: string and h :: "event list"
  obtains
    (mkdir_failed)
      "do_workflow e repo_url h =
         Some (0, h @ [Print (MsgProgress 0), Log MsgCreatingWorkdir, MakeDirs WORKDIR False,
                       LogError MsgCritical])"
  | (git_failed) g where
      "footprint {54..86} {installer_cmd e} g"
      "do_workflow e repo_url h = Some (1, h @ workflow_start @ g @ [LogError MsgGitFailed])"
  | (clone_failed) g c where
      "git_ready e g"
      "footprint ({110..128} \<union> {191..203}) {clone_cmd repo_url} c"
      "c \<noteq> []"
      "last c = LogError MsgCannotRemove \<or> last c = LogError MsgCloneFailed"
      "do_workflow e repo_url h = Some (2, h @ workflow_start @ g @ Print (MsgProgress 2) # c)"
  | (install_failed) g c i hi m where
      "git_ready e g" "cloned repo_url c"
      "hi = h @ workflow_start @ g @ Print (MsgProgress 2) # c @ [Print (MsgProgress 3)]"
      "install_step e (target_of e repo_url) hi = (False, hi @ i)"
      "footprint ({93..128} \<union> {211..229}) {pip_cmd e, [''npm'', ''install'']} i"
      "i \<noteq> []" "last i = LogError m" "install_abort m"
      "do_workflow e repo_url h = Some (3, hi @ i)"
  | (ran) g c i hi r where
      "git_ready e g" "cloned repo_url c"
      "hi = h @ workflow_start @ g @ Print (MsgProgress 2) # c @ [Print (MsgProgress 3)]"
      "install_step e (target_of e repo_url) hi = (True, hi @ i)"
      "installed e (target_of e repo_url) i"
      "run_step e (target_of e repo_url) (hi @ i @ [Print (MsgProgress 4)]) =
         Some (hi @ i @ Print (MsgProgress 4) # r)"
      "footprint ({110..160} \<union> {239..245}) UNIV r"
      "do_workflow e repo_url h =
         Some (5, hi @ i @ Print (MsgProgress 4) # r @ [Print (MsgProgress 5), Log MsgDone])"
  | (never_returns) g c i hi where
      "git_ready e g" "cloned repo_url c"
      "hi = h @ workflow_start @ g @ Print (MsgProgress 2) # c @ [Print (MsgProgress 3)]"
      "install_step e (target_of e repo_url) hi = (True, hi @ i)"
      "installed e (target_of e repo_url) i"
      "run_step e (target_of e repo_url) (hi @ i @ [Print (MsgProgress 4)]) = None"
      "do_workflow e repo_url h = None"
proof -
  let ?h1 = "h @ [Print (MsgProgress 0), Log MsgCreatingWorkdir]"
  show thesis
  proof (cases "os_makedirs e ?h1 WORKDIR")
    case False
    then have "do_workflow e repo_url h =
         Some (0, h @ [Print (MsgProgress 0), Log MsgCreatingWorkdir, MakeDirs WORKDIR False,
                       LogError MsgCritical])"
      by (simp add: do_workflow_def Let_def log_def log_error_def progress_def)
    then show thesis by (rule mkdir_failed)
  next
    case mk: True
    let ?h2 = "h @ workflow_start"
    obtain git_ok h3 where eg: "ensure_git e ?h2 = (git_ok, h3)"
      by (cases "ensure_git e ?h2")
    from ensure_git_footprint [OF eg] obtain g where
      h3: "h3 = ?h2 @ g" and fg: "footprint {54..86} {installer_cmd e} g"
      and gev: "git_ok \<longrightarrow> Log MsgGitPresent \<in> set g \<or> Remove (temp_path e) True \<in> set g"
      by blast
    have dw1: "do_workflow e repo_url h =
        (if \<not> git_ok then Some (1, log_error MsgGitFailed h3)
         else
           let (cloned, h4) = clone_step e repo_url (progress 2 h3)
           in case cloned of
                None \<Rightarrow> Some (2, h4)
              | Some target_dir \<Rightarrow>
                  let (installed, h5) = install_step e target_dir (progress 3 h4)
                  in if \<not> installed then Some (3, h5)
                     else
                       (case run_step e target_dir (progress 4 h5) of
                          None \<Rightarrow> None
                        | Some h6 \<Rightarrow> Some (5, log MsgDone (progress 5 h6))))"
    proof -
      have "log MsgCheckingGit (progress 1 (log MsgCreatingWorkdir (progress 0 h) @
               [MakeDirs WORKDIR True])) = h @ workflow_start"
        by (simp add: log_def progress_def workflow_start_def)
      moreover have "os_makedirs e (log MsgCreatingWorkdir (progress 0 h)) WORKDIR"
        using mk by (simp add: log_def progress_def)
      ultimately show ?thesis
        using eg unfolding do_workflow_def Let_def by simp
    qed
    show thesis
    proof (cases git_ok)
      case False
      with dw1 h3 have "do_workflow e repo_url h =
          Some (1, h @ workflow_start @ g @ [LogError MsgGitFailed])"
        by (simp add: log_error_def)
      with fg show thesis by (rule git_failed)
    next
      case True
      with fg gev have gr: "git_ready e g" by (simp add: git_ready_def)
      let ?h3 = "h @ workflow_start @ g @ [Print (MsgProgress 2)]"
      obtain res h4 where cs: "clone_step e repo_url ?h3 = (res, h4)"
        by (cases "clone_step e repo_url ?h3")
      from clone_step_footprint [OF cs] obtain c where
        h4: "h4 = ?h3 @ c" and cne: "c \<noteq> []"
        and fc: "footprint ({110..128} \<union> {191..203}) {clone_cmd repo_url} c"
        and cres: "case res of
              None \<Rightarrow> last c = LogError MsgCannotRemove \<or> last c = LogError MsgCloneFailed
            | Some d \<Rightarrow> d = target_of e repo_url \<and>
                (\<exists>out. Spawn (clone_cmd repo_url) (Some WORKDIR) False (Exited out 0) \<in> set c)"
        by blast
      show thesis
      proof (cases res)
        case None
        with dw1 True h3 cs h4 have "do_workflow e repo_url h =
            Some (2, h @ workflow_start @ g @ Print (MsgProgress 2) # c)"
          by (simp add: progress_def)
        with gr fc cne cres None show thesis by (intro clone_failed [of g c]) simp_all
      next
        case (Some d)
        with cres fc have d: "d = target_of e repo_url" and cl: "cloned repo_url c"
          by (auto simp: cloned_def)
        define hi where
          "hi = h @ workflow_start @ g @ Print (MsgProgress 2) # c @ [Print (MsgProgress 3)]"
        obtain ok h5 where ist: "install_step e (target_of e repo_url) hi = (ok, h5)"
          by (cases "install_step e (target_of e repo_url) hi")
        from install_step_footprint [OF ist] obtain i where
          h5: "h5 = hi @ i" and ine: "i \<noteq> []"
          and fi: "footprint ({93..128} \<union> {211..229}) {pip_cmd e, [''npm'', ''install'']} i"
          and ires: "if ok then \<exists>cmd out. cmd \<in> {pip_cmd e, [''npm'', ''install'']} \<and>
                         Spawn cmd (Some (target_of e repo_url)) False (Exited out 0) \<in> set i
                     else \<exists>m. last i = LogError m \<and> install_abort m"
          by blast
        have dw2: "do_workflow e repo_url h =
            (if \<not> ok then Some (3, hi @ i)
             else (case run_step e (target_of e repo_url) (progress 4 (hi @ i)) of
                     None \<Rightarrow> None
                   | Some h6 \<Rightarrow> Some (5, log MsgDone (progress 5 h6))))"
        proof -
          have "progress 3 h4 = hi"
            by (simp add: h4 hi_def progress_def)
          with dw1 True h3 cs Some d ist h5 show ?thesis
            by (simp add: progress_def)
        qed
        have p4: "progress 4 (hi @ i) = hi @ i @ [Print (MsgProgress 4)]"
          by (simp add: progress_def)
        show thesis
        proof (cases ok)
          case False
          with ires obtain m where "last i = LogError m" "install_abort m" by auto
          with False gr cl ist h5 fi ine dw2 show thesis
            by (intro install_failed [of g c hi i m]) (simp_all add: hi_def)
        next
          case ok: True
          with ires fi have inst: "installed e (target_of e repo_url) i"
            by (simp add: installed_def)
          from dw2 ok have dw3: "do_workflow e repo_url h =
              (case run_step e (target_of e repo_url) (hi @ i @ [Print (MsgProgress 4)]) of
                 None \<Rightarrow> None
               | Some h6 \<Rightarrow> Some (5, log MsgDone (progress 5 h6)))"
            unfolding p4 by simp
          show thesis
          proof (cases "run_step e (target_of e repo_url) (hi @ i @ [Print (MsgProgress 4)])")
            case None
            with dw3 have "do_workflow e repo_url h = None" by simp
            with None ok gr cl ist h5 inst show thesis
              by (intro never_returns [of g c hi i]) (simp_all add: hi_def)
          next
            case (Some h6)
            from run_step_footprint [OF Some] obtain r where
              h6: "h6 = (hi @ i @ [Print (MsgProgress 4)]) @ r"
              and fr: "footprint ({110..160} \<union> {239..245}) UNIV r"
              by blast
            from dw3 Some h6 have "do_workflow e repo_url h =
                Some (5, hi @ i @ Print (MsgProgress 4) # r @ [Print (MsgProgress 5), Log MsgDone])"
              by (simp add: progress_def log_def)
            with ok gr cl ist h5 inst Some h6 fr show thesis
              by (intro ran [of g c hi i r]) (simp_all add: hi_def)
          qed
        qed
      qed
    qed
  qed
qed

lemma progress_shown_append: "progress_shown (a @ b) = progress_shown a @ progress_shown b"
  by (induction a rule: progress_shown.induct) simp_all

lemma footprint_cmds: "footprint L cmds evs \<Longrightarrow> set (launched_cmds evs) \<subseteq> cmds"
  by (simp add: footprint_def)




lemma footprint_workflow_start:
  "{169..180} \<subseteq> L \<Longrightarrow> footprint L cmds workflow_start"
  by (auto simp: workflow_start_def)


lemma parse_sample: "parse_repo_name sample_url = ''sample-app''"
  unfolding sample_url_def by code_simp

lemma target_sample:
  "target_of bare_env sample_url = sample_dir"
  "target_of no_entry_env sample_url = sample_dir"
  "target_of crashing_env sample_url = sample_dir"
  by (simp_all add: target_of_def parse_sample sample_dir_def bare_env_def no_entry_env_def
        crashing_env_def test_env_def)


lemma run_no_entry:
  "do_workflow no_entry_env sample_url [] =
     Some (5, clone_events @ pip_events @
              [LogError MsgNoEntry, Print (MsgProgress 5), Log MsgDone])"
  by (simp add: do_workflow_def Let_def progress_def log_def log_error_def ensure_git_def
        check_exe_def clone_step_def install_step_def ensure_python_def run_step_def
        find_python_entrypoint_def run_cmd_unfold attempt_events_def
        parse_sample no_entry_env_def test_env_def clone_events_def pip_events_def sample_dir_def)

lemma run_crashing:
  "do_workflow crashing_env sample_url [] =
     Some (5, clone_events @ pip_events @
              [Log (MsgLaunching ''main.py''), Log (MsgRunning [''python'', ''main.py'']),
               Spawn [''python'', ''main.py''] (Some sample_dir) False (Exited [] 3),
               LogError (MsgExitCode 3), Log (MsgRetry 2),
               Spawn [''python'', ''main.py''] (Some sample_dir) False (Exited [] 3),
               LogError (MsgExitCode 3), Print (MsgProgress 5), Log MsgDone])"
  by (simp add: do_workflow_def Let_def progress_def log_def log_error_def ensure_git_def
        check_exe_def clone_step_def install_step_def ensure_python_def run_step_def
        find_python_entrypoint_def run_cmd_unfold attempt_events_def
        parse_sample crashing_env_def test_env_def clone_events_def pip_events_def sample_dir_def)

lemma upt_small:
  "[0..<Suc 0] = [0]" "[0..<Suc 1] = [0, 1]" "[0..<Suc 2] = [0, 1, 2]"
  "[0..<Suc 3] = [0, 1, 2, 3]" "[0..<Suc 5] = [0, 1, 2, 3, 4, 5]"
  by (simp_all add: upt_rec)

lemma install_abort_step: "install_abort m \<Longrightarrow> abort_step m = Some 3"
  by (auto simp: install_abort_def)

lemma git_ready_facts:
  assumes "git_ready e g"
  shows "progress_shown g = []" "Log MsgDone \<notin> set g"
    "set (launched_cmds g) \<subseteq> {installer_cmd e}"
    "Log MsgGitPresent \<in> set g \<or> Remove (temp_path e) True \<in> set g"
proof -
  from assms have f: "footprint {54..86} {installer_cmd e} g" by (simp add: git_ready_def)
  show "progress_shown g = []" by (rule footprint_progress [OF f]) simp
  show "Log MsgDone \<notin> set g" using footprint_no_msg [OF f, of MsgDone] by simp
  show "set (launched_cmds g) \<subseteq> {installer_cmd e}" by (rule footprint_cmds [OF f])
  show "Log MsgGitPresent \<in> set g \<or> Remove (temp_path e) True \<in> set g"
    using assms by (simp add: git_ready_def)
qed

lemma clone_facts:
  assumes f: "footprint ({110..128} \<union> {191..203}) {clone_cmd repo_url} c"
  shows "progress_shown c = []" "Log MsgDone \<notin> set c"
    "set (launched_cmds c) \<subseteq> {clone_cmd repo_url}"
proof -
  show "progress_shown c = []" by (rule footprint_progress [OF f]) simp
  show "Log MsgDone \<notin> set c" using footprint_no_msg [OF f, of MsgDone] by simp
  show "set (launched_cmds c) \<subseteq> {clone_cmd repo_url}" by (rule footprint_cmds [OF f])
qed

lemma install_facts:
  assumes f: "footprint ({93..128} \<union> {211..229}) {pip_cmd e, [''npm'', ''install'']} i"
  shows "progress_shown i = []" "Log MsgDone \<notin> set i"
    "set (launched_cmds i) \<subseteq> {pip_cmd e, [''npm'', ''install'']}"
proof -
  show "progress_shown i = []" by (rule footprint_progress [OF f]) simp
  show "Log MsgDone \<notin> set i" using footprint_no_msg [OF f, of MsgDone] by simp
  show "set (launched_cmds i) \<subseteq> {pip_cmd e, [''npm'', ''install'']}"
    by (rule footprint_cmds [OF f])
qed

lemma run_facts:
  assumes f: "footprint ({110..160} \<union> {239..245}) UNIV r"
  shows "progress_shown r = []" "Log MsgDone \<notin> set r"
proof -
  show "progress_shown r = []" by (rule footprint_progress [OF f]) simp
  show "Log MsgDone \<notin> set r" using footprint_no_msg [OF f, of MsgDone] by simp
qed

lemma do_workflow_summary:
  assumes "do_workflow e repo_url h = Some (k, t)"
  shows "\<exists>evs. t = h @ evs \<and> evs \<noteq> [] \<and> progress_shown evs = [0..<Suc k] \<and>
           (k \<le> 3 \<or> k = 5) \<and> steps_done e repo_url k evs \<and>
           (k = 5 \<longrightarrow> last evs = Log MsgDone) \<and>
           (k \<le> 3 \<longrightarrow> Log MsgDone \<notin> set evs \<and>
              (\<exists>m. last evs = LogError m \<and> abort_step m = Some k) \<and>
              set (launched_cmds evs) \<subseteq> step_cmds e repo_url (Suc k))"
proof (cases rule: do_workflow_cases [of e repo_url h])
  case mkdir_failed
  with assms have k: "k = 0"
    and t: "t = h @ [Print (MsgProgress 0), Log MsgCreatingWorkdir, MakeDirs WORKDIR False,
                     LogError MsgCritical]"
    by simp_all
  show ?thesis
    by (rule exI [of _ "[Print (MsgProgress 0), Log MsgCreatingWorkdir, MakeDirs WORKDIR False,
                         LogError MsgCritical]"])
      (simp add: k t steps_done_def step_cmds_def)
next
  case (git_failed g)
  with assms have k: "k = 1" and t: "t = h @ workflow_start @ g @ [LogError MsgGitFailed]"
    by simp_all
  have p: "progress_shown g = []" by (rule footprint_progress [OF git_failed(1)]) simp
  have d: "Log MsgDone \<notin> set g" using footprint_no_msg [OF git_failed(1), of MsgDone] by simp
  have c: "set (launched_cmds g) \<subseteq> {installer_cmd e}" by (rule footprint_cmds [OF git_failed(1)])
  show ?thesis
    using p d c
    by (intro exI [of _ "workflow_start @ g @ [LogError MsgGitFailed]"])
      (simp add: k t steps_done_def step_cmds_def workflow_start_def progress_shown_append
         launched_cmds_append)
next
  case (clone_failed g c)
  with assms have k: "k = 2"
    and t: "t = h @ workflow_start @ g @ Print (MsgProgress 2) # c"
    by simp_all
  note gf = git_ready_facts [OF clone_failed(1)]
  note cf = clone_facts [OF clone_failed(2)]
  from clone_failed(3,4) have l: "\<exists>m. last c = LogError m \<and> abort_step m = Some 2"
    by auto
  show ?thesis
    using gf cf l clone_failed(3)
    by (intro exI [of _ "workflow_start @ g @ Print (MsgProgress 2) # c"])
      (auto simp: k t steps_done_def step_cmds_def workflow_start_def progress_shown_append
         launched_cmds_append upt_rec)
next
  case (install_failed g c i hi m)
  with assms have k: "k = 3"
    and t: "t = h @ workflow_start @ g @ Print (MsgProgress 2) # c @ Print (MsgProgress 3) # i"
    by simp_all
  note gf = git_ready_facts [OF install_failed(1)]
  from install_failed(2) have fc: "footprint ({110..128} \<union> {191..203}) {clone_cmd repo_url} c"
    and ce: "\<exists>out. Spawn (clone_cmd repo_url) (Some WORKDIR) False (Exited out 0) \<in> set c"
    by (simp_all add: cloned_def)
  note cf = clone_facts [OF fc]
  note jf = install_facts [OF install_failed(5)]
  from install_failed(7,8) have l: "\<exists>m. last i = LogError m \<and> abort_step m = Some 3"
    by (auto dest: install_abort_step)
  show ?thesis
    using gf cf jf ce l install_failed(6)
    by (intro exI [of _ "workflow_start @ g @ Print (MsgProgress 2) # c @ Print (MsgProgress 3) # i"])
      (auto simp: k t steps_done_def step_cmds_def workflow_start_def progress_shown_append
         launched_cmds_append upt_rec)
next
  case (ran g c i hi r)
  with assms have k: "k = 5"
    and t: "t = h @ workflow_start @ g @ Print (MsgProgress 2) # c @ Print (MsgProgress 3) # i @
                Print (MsgProgress 4) # r @ [Print (MsgProgress 5), Log MsgDone]"
    by simp_all
  note gf = git_ready_facts [OF ran(1)]
  from ran(2) have fc: "footprint ({110..128} \<union> {191..203}) {clone_cmd repo_url} c"
    and ce: "\<exists>out. Spawn (clone_cmd repo_url) (Some WORKDIR) False (Exited out 0) \<in> set c"
    by (simp_all add: cloned_def)
  note cf = clone_facts [OF fc]
  from ran(5) have fi: "footprint ({93..128} \<union> {211..229}) {pip_cmd e, [''npm'', ''install'']} i"
    and ie: "\<exists>cmd out. cmd \<in> {pip_cmd e, [''npm'', ''install'']} \<and>
        Spawn cmd (Some (target_of e repo_url)) False (Exited out 0) \<in> set i"
    by (simp_all add: installed_def)
  note jf = install_facts [OF fi]
  note rf = run_facts [OF ran(7)]
  have sd: "steps_done e repo_url 5
     (workflow_start @ g @ Print (MsgProgress 2) # c @ Print (MsgProgress 3) # i @
                Print (MsgProgress 4) # r @ [Print (MsgProgress 5), Log MsgDone])"
    unfolding steps_done_def using gf(4) ce ie by (auto simp: workflow_start_def)
  show ?thesis
    using gf(1) cf(1) jf(1) rf(1) sd
    by (intro exI [of _ "workflow_start @ g @ Print (MsgProgress 2) # c @ Print (MsgProgress 3) # i @
                Print (MsgProgress 4) # r @ [Print (MsgProgress 5), Log MsgDone]"])
      (simp add: k t workflow_start_def progress_shown_append upt_rec)
next
  case (never_returns g c i hi)
  with assms show ?thesis by simp
qed

section \<open>Concrete runs of the workflow\<close>

lemma run_working:
  "do_workflow working_env sample_url [] =
     Some (5, clone_events @ pip_events @
              [Log (MsgLaunching ''main.py''), Log (MsgRunning [''python'', ''main.py'']),
               Spawn [''python'', ''main.py''] (Some sample_dir) False (Exited [] 0),
               Print (MsgProgress 5), Log MsgDone])"
  by (simp add: do_workflow_def Let_def progress_def log_def log_error_def ensure_git_def
        check_exe_def clone_step_def install_step_def ensure_python_def run_step_def
        find_python_entrypoint_def run_cmd_unfold attempt_events_def
        parse_sample working_env_def test_env_def clone_events_def pip_events_def sample_dir_def)

lemma run_failed_clone:
  "do_workflow failing_env sample_url [] = Some (2, failed_clone_events)"
  by (simp add: do_workflow_def Let_def progress_def log_def log_error_def ensure_git_def
        check_exe_def clone_step_def run_cmd_unfold attempt_events_def
        parse_sample failing_env_def test_env_def failed_clone_events_def)


section \<open>The final message and the step counter\<close>

text \<open>
  Claim C1.  The final message is to be logged only when every step succeeded, the run
  step included.  The code breaks this in the run step.  For a Python project with a
  manifest and no Python file the entry-point resolution returns no entry file, the error
  of line 243 is reported, nothing is launched, and the final message is logged all the
  same, as the last event.  Every other error report of \<open>do_workflow\<close> (lines 182, 196,
  201, 217, 226, 230) is followed by \<open>return\<close>; this one is not.
\<close>

theorem workflow_done_after_missing_entry:
  "do_workflow no_entry_env sample_url [] =
     Some (5, clone_events @ pip_events @
              [LogError MsgNoEntry, Print (MsgProgress 5), Log MsgDone]) \<and>
   find_python_entrypoint no_entry_env sample_dir (clone_events @ pip_events) =
     Some (None, clone_events @ pip_events) \<and>
   launched_cmds (clone_events @ pip_events @
      [LogError MsgNoEntry, Print (MsgProgress 5), Log MsgDone]) =
     [clone_cmd sample_url, pip_cmd no_entry_env] \<and>
   last (clone_events @ pip_events @
      [LogError MsgNoEntry, Print (MsgProgress 5), Log MsgDone]) = Log MsgDone"
proof -
  have f: "find_python_entrypoint no_entry_env sample_dir (clone_events @ pip_events) =
             Some (None, clone_events @ pip_events)"
    by (simp add: find_python_entrypoint_def no_entry_env_def test_env_def)
  have p: "pip_cmd no_entry_env =
             [''python'', ''-m'', ''pip'', ''install'', ''-r'', ''requirements.txt'']"
    by (simp add: pip_cmd_def no_entry_env_def test_env_def)
  from f show ?thesis
    by (simp add: run_no_entry p clone_events_def pip_events_def clone_cmd_def)
qed

lemma steps_done_mono: "steps_done e u k evs \<Longrightarrow> k' \<le> k \<Longrightarrow> steps_done e u k' evs"
  by (simp add: steps_done_def)

text \<open>
  The first four steps do guard the final message.  A run of \<open>do_workflow\<close> that logs it
  has created the folder, found or installed Git, seen the clone command exit with
  status 0 and seen the dependency installer exit with status 0.  A run that returns
  without it completed at most three steps, and its last event is the error report of the
  step that failed.
\<close>

lemma workflow_done_message:
  assumes "do_workflow e repo_url h = Some (k, t)"
  shows "\<exists>evs. t = h @ evs \<and> (Log MsgDone \<in> set evs \<longleftrightarrow> k = 5) \<and>
           (k = 5 \<longrightarrow> last evs = Log MsgDone \<and> steps_done e repo_url 4 evs) \<and>
           (k \<noteq> 5 \<longrightarrow> k \<le> 3 \<and> (\<exists>m. last evs = LogError m \<and> abort_step m = Some k))"
proof -
  from do_workflow_summary [OF assms] obtain evs where
    t: "t = h @ evs" and ne: "evs \<noteq> []" and k: "k \<le> 3 \<or> k = 5"
    and sd: "steps_done e repo_url k evs"
    and five: "k = 5 \<longrightarrow> last evs = Log MsgDone"
    and abort: "k \<le> 3 \<longrightarrow> Log MsgDone \<notin> set evs \<and>
                  (\<exists>m. last evs = LogError m \<and> abort_step m = Some k)"
    by blast
  have "Log MsgDone \<in> set evs \<longleftrightarrow> k = 5"
  proof
    assume "Log MsgDone \<in> set evs"
    with abort k show "k = 5" by auto
  next
    assume "k = 5"
    with five have "last evs = Log MsgDone" by simp
    with ne show "Log MsgDone \<in> set evs" using last_in_set by fastforce
  qed
  moreover have "k = 5 \<longrightarrow> steps_done e repo_url 4 evs"
    using sd by (auto intro: steps_done_mono)
  ultimately show ?thesis using t k five abort by auto
qed

lemma workflow_done_message_witness:
  "do_workflow failing_env sample_url [] = Some (2, failed_clone_events) \<and>
   Log MsgDone \<notin> set failed_clone_events \<and>
   last failed_clone_events = LogError MsgCloneFailed \<and>
   abort_step MsgCloneFailed = Some 2"
  using workflow_done_message [OF run_failed_clone]
  by (simp add: run_failed_clone failed_clone_events_def)

text \<open>
  Claim C8.  The step counter is to advance only after the operation of the step
  succeeded.  The code breaks this in the run step.  Where \<open>main.py\<close> exits with status 3
  on both attempts, \<open>run_cmd\<close> returns 3, and the progress values shown are still 0 to 5:
  the counter advances past the run step.  The status that \<open>run_cmd\<close> returns is tested
  after the clone and after each dependency installer (lines 199, 215, 224) and dropped
  at lines 240 and 246.
\<close>

theorem workflow_counter_after_failed_run:
  "do_workflow crashing_env sample_url [] =
     Some (5, clone_events @ pip_events @ crash_events @ [Print (MsgProgress 5), Log MsgDone]) \<and>
   launches crash_events = [Exited [] 3, Exited [] 3] \<and>
   launched_cmds crash_events = [[''python'', ''main.py''], [''python'', ''main.py'']] \<and>
   progress_shown (clone_events @ pip_events @ crash_events @
                   [Print (MsgProgress 5), Log MsgDone]) = [0, 1, 2, 3, 4, 5]"
  by (simp add: run_crashing crash_events_def clone_events_def pip_events_def)

text \<open>
  The counter in the first four steps.  In a run of \<open>do_workflow\<close> that returns with
  \<open>step_idx = k\<close>, the values shown by \<open>progress\<close> are 0, 1, ..., \<open>k\<close>, each once and in
  order, and the history shows the success of each of the first four steps that was
  counted: the folder created, Git present or installed, the clone command exited with 0,
  the dependency installer exited with 0.  A run that stops before the end has completed
  at most three steps, its last event is the error report of the step that failed, and it
  has launched no command of a later step.
\<close>

lemma workflow_step_counter:
  assumes "do_workflow e repo_url h = Some (k, t)"
  shows "\<exists>evs. t = h @ evs \<and> k \<le> 5 \<and> progress_shown evs = [0..<Suc k] \<and>
           steps_done e repo_url k evs \<and>
           (k < 5 \<longrightarrow> k \<le> 3 \<and> (\<exists>m. last evs = LogError m \<and> abort_step m = Some k) \<and>
              set (launched_cmds evs) \<subseteq> step_cmds e repo_url (Suc k))"
proof -
  from do_workflow_summary [OF assms] obtain evs where
    "t = h @ evs" "progress_shown evs = [0..<Suc k]" "k \<le> 3 \<or> k = 5"
    "steps_done e repo_url k evs"
    "k \<le> 3 \<longrightarrow> Log MsgDone \<notin> set evs \<and>
       (\<exists>m. last evs = LogError m \<and> abort_step m = Some k) \<and>
       set (launched_cmds evs) \<subseteq> step_cmds e repo_url (Suc k)"
    by blast
  then show ?thesis by (intro exI [of _ evs]) auto
qed

lemma workflow_step_counter_witness:
  "do_workflow working_env sample_url [] =
     Some (5, clone_events @ pip_events @
              [Log (MsgLaunching ''main.py''), Log (MsgRunning [''python'', ''main.py'']),
               Spawn [''python'', ''main.py''] (Some sample_dir) False (Exited [] 0),
               Print (MsgProgress 5), Log MsgDone]) \<and>
   progress_shown (clone_events @ pip_events @
              [Log (MsgLaunching ''main.py''), Log (MsgRunning [''python'', ''main.py'']),
               Spawn [''python'', ''main.py''] (Some sample_dir) False (Exited [] 0),
               Print (MsgProgress 5), Log MsgDone]) = [0, 1, 2, 3, 4, 5]"
  using workflow_step_counter [OF run_working]
  by (simp add: run_working clone_events_def pip_events_def)

section \<open>The check of the URL in \<open>main\<close>\<close>

lemma startswith_iff: "startswith u p \<longleftrightarrow> (\<exists>rest. u = p @ rest)"
proof
  assume "startswith u p"
  then have "take (length p) u = p" by (simp add: startswith_def)
  then have "u = p @ drop (length p) u" by (metis append_take_drop_id)
  then show "\<exists>rest. u = p @ rest" ..
next
  assume "\<exists>rest. u = p @ rest"
  then obtain rest where "u = p @ rest" ..
  then show "startswith u p" by (simp add: startswith_def)
qed

lemma startswith_http_nonempty: "startswith u ''http'' \<Longrightarrow> u \<noteq> []"
  by (auto simp: startswith_def)

lemma strip_examples:
  "strip ''httpfoo'' = ''httpfoo''" "strip ''ftp://host/x.git'' = ''ftp://host/x.git''"
  "strip '' https://host/org/sample-app.git '' = ''https://host/org/sample-app.git''"
  by (simp_all add: strip_def py_isspace_def)

text \<open>
  Claim C10.  \<open>main\<close> strips white space from the argument (or from the line it reads when
  there is no argument) and then starts the workflow on it exactly when the stripped text
  begins with the four characters \<open>http\<close>, which makes it non-empty; no separator \<open>://\<close>
  is asked for.  Every other input is answered by the banner and the error of line 262
  alone: nothing of the workflow happens.
\<close>

theorem main_url_precheck:
  "(\<forall>prog a rest. argv = prog # a # rest \<longrightarrow>
      (startswith (strip a) ''http'' \<longrightarrow>
         strip a \<noteq> [] \<and>
         main e argv = map_option snd (do_workflow e (strip a) [Print MsgBanner])) \<and>
      (\<not> startswith (strip a) ''http'' \<longrightarrow>
         main e argv = Some [Print MsgBanner, LogError MsgBadUrl])) \<and>
   (length argv \<le> 1 \<longrightarrow>
      (\<forall>l. input_str e [Print MsgBanner] = Some l \<longrightarrow>
         (startswith (strip l) ''http'' \<longrightarrow>
            main e argv =
              map_option snd (do_workflow e (strip l) [Print MsgBanner, InputLine (Some l)])) \<and>
         (\<not> startswith (strip l) ''http'' \<longrightarrow>
            main e argv = Some [Print MsgBanner, InputLine (Some l), LogError MsgBadUrl]))) \<and>
   (\<forall>u. startswith u ''http'' \<longleftrightarrow> (\<exists>rest. u = ''http'' @ rest))"
proof (intro conjI allI impI)
  fix prog a rest
  assume "argv = prog # a # rest" "startswith (strip a) ''http''"
  then show "strip a \<noteq> []" by (simp add: startswith_http_nonempty)
next
  fix prog a rest
  assume a: "argv = prog # a # rest" "startswith (strip a) ''http''"
  then have "strip a \<noteq> []" by (simp add: startswith_http_nonempty)
  with a show "main e argv = map_option snd (do_workflow e (strip a) [Print MsgBanner])"
    by (simp add: main_def Let_def)
next
  fix prog a rest
  assume "argv = prog # a # rest" "\<not> startswith (strip a) ''http''"
  then show "main e argv = Some [Print MsgBanner, LogError MsgBadUrl]"
    by (simp add: main_def Let_def log_error_def)
next
  fix l
  assume a: "length argv \<le> 1" "input_str e [Print MsgBanner] = Some l"
    "startswith (strip l) ''http''"
  then have "strip l \<noteq> []" by (simp add: startswith_http_nonempty)
  with a show "main e argv =
      map_option snd (do_workflow e (strip l) [Print MsgBanner, InputLine (Some l)])"
    by (simp add: main_def Let_def)
next
  fix l
  assume "length argv \<le> 1" "input_str e [Print MsgBanner] = Some l"
    "\<not> startswith (strip l) ''http''"
  then show "main e argv = Some [Print MsgBanner, InputLine (Some l), LogError MsgBadUrl]"
    by (simp add: main_def Let_def log_error_def)
next
  fix u show "startswith u ''http'' \<longleftrightarrow> (\<exists>rest. u = ''http'' @ rest)"
    by (rule startswith_iff)
qed

theorem main_url_precheck_witness:
  "startswith (strip ''httpfoo'') ''http'' \<and>
   main failing_env [''hem4v.py'', ''httpfoo''] =
     map_option snd (do_workflow failing_env ''httpfoo'' [Print MsgBanner]) \<and>
   main failing_env [''hem4v.py'', ''ftp://host/x.git''] =
     Some [Print MsgBanner, LogError MsgBadUrl]"
proof -
  have a: "startswith (strip ''httpfoo'') ''http''"
    by (simp add: strip_examples startswith_def)
  have b: "\<not> startswith (strip ''ftp://host/x.git'') ''http''"
    by (simp add: strip_examples startswith_def)
  from main_url_precheck [of "[''hem4v.py'', ''httpfoo'']" failing_env] a
  have 1: "main failing_env [''hem4v.py'', ''httpfoo''] =
     map_option snd (do_workflow failing_env (strip ''httpfoo'') [Print MsgBanner])"
    by blast
  from main_url_precheck [of "[''hem4v.py'', ''ftp://host/x.git'']" failing_env] b
  have 2: "main failing_env [''hem4v.py'', ''ftp://host/x.git''] =
     Some [Print MsgBanner, LogError MsgBadUrl]"
    by blast
  from a 1 2 show ?thesis by (simp add: strip_examples)
qed

end
